theory Spec2Isabelle
  imports Main "HOL-Library.Word"
begin

section \<open>Time values of the JavaScript \<open>Date\<close> object\<close>

text \<open>
  \<open>scripts/update-readme/helpers.js\<close> builds its date ranges with \<open>Date.UTC\<close>,
  \<open>getUTCFullYear\<close>, \<open>getUTCMonth\<close> and \<open>toISOString\<close>.  These are modelled after the
  abstract operations of the ECMAScript specification (section "Time Values and Time Range").
  A time value is a number of milliseconds since 1970-01-01T00:00:00Z, here an \<open>int\<close>;
  a \<open>Date\<close> object holds a time value or is an Invalid Date (\<open>None\<close>); a JavaScript
  number that is an integer or \<open>NaN\<close> is an \<open>int option\<close> (\<open>None\<close> is \<open>NaN\<close>).
\<close>

type_synonym Date = "int option"

type_synonym number = "int option"

definition msPerDay :: int where
  "msPerDay = 86400000"

definition maxTime :: int where
  "maxTime = 8640000000000000"

definition Day :: "int \<Rightarrow> int" where
  "Day t = t div msPerDay"

definition DaysInYear :: "int \<Rightarrow> int" where
  "DaysInYear y =
     (if y mod 4 \<noteq> 0 then 365
      else if y mod 100 \<noteq> 0 then 366
      else if y mod 400 \<noteq> 0 then 365
      else 366)"

definition DayFromYear :: "int \<Rightarrow> int" where
  "DayFromYear y =
     365 * (y - 1970) + (y - 1969) div 4 - (y - 1901) div 100 + (y - 1601) div 400"

definition TimeFromYear :: "int \<Rightarrow> int" where
  "TimeFromYear y = msPerDay * DayFromYear y"

text \<open>
  ECMAScript defines \<open>YearFromTime(t)\<close> as the largest \<open>y\<close> with
  \<open>TimeFromYear(y) \<le> t\<close>.  The definition below computes it: the estimate
  \<open>1970 + \<lfloor>400 d / 146097\<rfloor>\<close> (146097 days in 400 years) is off by at most one year,
  and is corrected by comparing with \<open>DayFromYear\<close>.  Lemma \<open>YearFromTime_bounds\<close> below
  proves that the result is the year ECMAScript specifies.
\<close>

definition YearFromTime :: "int \<Rightarrow> int" where
  "YearFromTime t =
     (let d = Day t; y = 1970 + (400 * d) div 146097
      in if DayFromYear (y + 1) \<le> d then y + 1
         else if DayFromYear y \<le> d then y
         else y - 1)"

definition InLeapYear :: "int \<Rightarrow> int" where
  "InLeapYear t = (if DaysInYear (YearFromTime t) = 366 then 1 else 0)"

definition DayWithinYear :: "int \<Rightarrow> int" where
  "DayWithinYear t = Day t - DayFromYear (YearFromTime t)"

definition MonthFromTime :: "int \<Rightarrow> int" where
  "MonthFromTime t =
     (let d = DayWithinYear t; l = InLeapYear t
      in if d < 31 then 0
         else if d < 59 + l then 1
         else if d < 90 + l then 2
         else if d < 120 + l then 3
         else if d < 151 + l then 4
         else if d < 181 + l then 5
         else if d < 212 + l then 6
         else if d < 243 + l then 7
         else if d < 273 + l then 8
         else if d < 304 + l then 9
         else if d < 334 + l then 10
         else 11)"

text \<open>
  \<open>MonthStart l mn\<close> is the day within the year on which month \<open>mn\<close> (0 to 11) begins,
  in a year with \<open>l\<close> leap days: the lower bounds of the table above.
\<close>

definition MonthStart :: "int \<Rightarrow> int \<Rightarrow> int" where
  "MonthStart l mn =
     (if mn = 0 then 0
      else if mn = 1 then 31
      else if mn = 2 then 59 + l
      else if mn = 3 then 90 + l
      else if mn = 4 then 120 + l
      else if mn = 5 then 151 + l
      else if mn = 6 then 181 + l
      else if mn = 7 then 212 + l
      else if mn = 8 then 243 + l
      else if mn = 9 then 273 + l
      else if mn = 10 then 304 + l
      else 334 + l)"

text \<open>
  \<open>DateFromTime\<close> is the day of the month: the day within the year, counted from the day
  on which the month begins, starting at 1.
\<close>

definition DateFromTime :: "int \<Rightarrow> int" where
  "DateFromTime t = DayWithinYear t - MonthStart (InLeapYear t) (MonthFromTime t) + 1"

text \<open>
  \<open>MakeDay(year, month, date)\<close>: the month is carried into the year
  (\<open>ym = year + \<lfloor>month / 12\<rfloor>\<close>, \<open>mn = month mod 12\<close>), and the result is the day number of
  the first of month \<open>mn\<close> of year \<open>ym\<close>, plus \<open>date - 1\<close>.
\<close>

definition MakeDay :: "int \<Rightarrow> int \<Rightarrow> int \<Rightarrow> int" where
  "MakeDay year month date =
     (let ym = year + month div 12; mn = month mod 12
      in DayFromYear ym + MonthStart (if DaysInYear ym = 366 then 1 else 0) mn + date - 1)"

definition MakeDate :: "int \<Rightarrow> int \<Rightarrow> int" where
  "MakeDate day time = day * msPerDay + time"

definition TimeClip :: "int \<Rightarrow> Date" where
  "TimeClip time = (if \<bar>time\<bar> > maxTime then None else Some time)"

text \<open>\<open>MakeFullYear\<close>: \<open>Date.UTC\<close> reads a year from 0 to 99 as 1900 to 1999.\<close>

definition MakeFullYear :: "int \<Rightarrow> int" where
  "MakeFullYear year = (if 0 \<le> year \<and> year \<le> 99 then 1900 + year else year)"

text \<open>\<open>new Date(Date.UTC(year, month, date))\<close>, at 00:00:00.000.\<close>

definition Date_UTC :: "number \<Rightarrow> number \<Rightarrow> int \<Rightarrow> Date" where
  "Date_UTC year month date =
     (case year of
        None \<Rightarrow> None
      | Some y \<Rightarrow>
          (case month of
             None \<Rightarrow> None
           | Some m \<Rightarrow> TimeClip (MakeDate (MakeDay (MakeFullYear y) m date) 0)))"

definition getUTCFullYear :: "int \<Rightarrow> int" where
  "getUTCFullYear t = YearFromTime t"

definition getUTCMonth :: "int \<Rightarrow> int" where
  "getUTCMonth t = MonthFromTime t"

text \<open>
  \<open>getFullYear\<close> and \<open>getMonth\<close> read the date in local time: \<open>tza t\<close> is the offset of
  local time from UTC at \<open>t\<close>, in milliseconds.  On an Invalid Date both return \<open>NaN\<close>.
\<close>

definition getFullYear :: "(int \<Rightarrow> int) \<Rightarrow> Date \<Rightarrow> number" where
  "getFullYear tza d = (case d of None \<Rightarrow> None | Some t \<Rightarrow> Some (YearFromTime (t + tza t)))"

definition getMonth :: "(int \<Rightarrow> int) \<Rightarrow> Date \<Rightarrow> number" where
  "getMonth tza d = (case d of None \<Rightarrow> None | Some t \<Rightarrow> Some (MonthFromTime (t + tza t)))"

text \<open>\<open>isBefore\<close> of date-fns compares the time values; with an Invalid Date it is false.\<close>

definition isBefore :: "Date \<Rightarrow> Date \<Rightarrow> bool" where
  "isBefore date dateToCompare =
     (case date of
        None \<Rightarrow> False
      | Some a \<Rightarrow> (case dateToCompare of None \<Rightarrow> False | Some b \<Rightarrow> a < b))"

section \<open>Errors\<close>

text \<open>
  \<open>RangeError\<close> is what \<open>toISOString\<close> throws on an Invalid Date, and \<open>repeat\<close> on a
  negative count.  \<open>TypeError\<close> is what the read of a property of \<open>undefined\<close> or \<open>null\<close>
  throws.  \<open>RequestError s\<close> is a remote call rejected with HTTP status \<open>s\<close>
  (401 authentication, 403 rate limit, 409 conflict, ...), \<open>NetworkError\<close> a call that got
  no answer.
\<close>

datatype error = RangeError | TypeError | RequestError nat | NetworkError

text \<open>
  \<open>toISOString\<close> renders a valid time value as text, one text for each time value.  The
  model keeps the time value in place of its text.
\<close>

definition toISOString :: "Date \<Rightarrow> error + int" where
  "toISOString d = (case d of None \<Rightarrow> Inl RangeError | Some t \<Rightarrow> Inr t)"

section \<open>calculateDateRanges\<close>

text \<open>
  A range holds two instants.  The source stores each as the text that \<open>toISOString\<close> gives;
  the model stores the time value.
\<close>

record date_range =
  "from" :: int
  to :: int

subsection \<open>The next chunk boundary is later than the current instant\<close>

text \<open>
  The loops of \<open>calculateDateRanges\<close> end because \<open>next\<close> is later than \<open>current\<close>.  This
  rests on the calendar: the year and the month that \<open>YearFromTime\<close> and \<open>MonthFromTime\<close>
  read from an instant are those in which the instant lies.
\<close>

lemma div_lower: "(0::int) < k \<Longrightarrow> k * (a div k) \<le> a"
  using pos_mod_sign[of k a] mult_div_mod_eq[of k a] by linarith

lemma div_upper: "(0::int) < k \<Longrightarrow> a < k * (a div k) + k"
  using pos_mod_bound[of k a] mult_div_mod_eq[of k a] by linarith

lemma DayFromYear_flat:
  "DayFromYear y = 365 * y - 719050 + (y - 1969) div 4 - (y - 1901) div 100 + (y - 1601) div 400"
  unfolding DayFromYear_def by simp

lemma DayFromYear_lower: "146097 * y - 287811596 \<le> 400 * DayFromYear y"
proof -
  define a b c where "a = (y - 1969) div 4" and "b = (y - 1901) div 100" and "c = (y - 1601) div 400"
  have "y - 1969 < 4 * a + 4" unfolding a_def by (rule div_upper) simp
  moreover have "100 * b \<le> y - 1901" unfolding b_def by (rule div_lower) simp
  moreover have "y - 1601 < 400 * c + 400" unfolding c_def by (rule div_upper) simp
  moreover have "DayFromYear y = 365 * y - 719050 + a - b + c"
    unfolding a_def b_def c_def by (rule DayFromYear_flat)
  ultimately show ?thesis by linarith
qed

lemma DayFromYear_upper: "400 * DayFromYear y \<le> 146097 * y - 287810501"
proof -
  define a b c where "a = (y - 1969) div 4" and "b = (y - 1901) div 100" and "c = (y - 1601) div 400"
  have "4 * a \<le> y - 1969" unfolding a_def by (rule div_lower) simp
  moreover have "y - 1901 < 100 * b + 100" unfolding b_def by (rule div_upper) simp
  moreover have "400 * c \<le> y - 1601" unfolding c_def by (rule div_lower) simp
  moreover have "DayFromYear y = 365 * y - 719050 + a - b + c"
    unfolding a_def b_def c_def by (rule DayFromYear_flat)
  ultimately show ?thesis by linarith
qed

text \<open>The year computed is the one ECMAScript specifies.\<close>

lemma YearFromTime_bounds:
  "DayFromYear (YearFromTime t) \<le> Day t \<and> Day t < DayFromYear (YearFromTime t + 1)"
proof -
  define d where "d = Day t"
  define y where "y = 1970 + (400 * d) div 146097"
  have q1: "146097 * y - 287811090 \<le> 400 * d"
    unfolding y_def using div_lower[of 146097 "400 * d"] by simp
  have q2: "400 * d < 146097 * y - 287664993"
    unfolding y_def using div_upper[of 146097 "400 * d"] by simp
  have lo: "DayFromYear (y - 1) \<le> d"
    using DayFromYear_upper[of "y - 1"] q1 by (simp add: algebra_simps)
  have hi: "d < DayFromYear (y + 2)"
    using DayFromYear_lower[of "y + 2"] q2 by (simp add: algebra_simps)
  have yft: "YearFromTime t =
      (if DayFromYear (y + 1) \<le> d then y + 1 else if DayFromYear y \<le> d then y else y - 1)"
    unfolding YearFromTime_def d_def y_def Let_def ..
  show ?thesis
    unfolding yft d_def[symmetric] using lo hi by (auto simp: algebra_simps)
qed

lemma div_Suc_int:
  assumes k: "(0::int) < k"
  shows "(a + 1) div k = a div k + (if (a + 1) mod k = 0 then 1 else 0)"
proof -
  have m: "0 \<le> a mod k" "a mod k < k" using k by simp_all
  have e: "a = k * (a div k) + a mod k" by simp
  show ?thesis
  proof (cases "a mod k = k - 1")
    case True
    have "a + 1 = k * (a div k + 1) + 0" using e True by (simp add: algebra_simps)
    from int_div_pos_eq[OF this] int_mod_pos_eq[OF this] k show ?thesis by simp
  next
    case False
    hence lt: "a mod k + 1 < k" using m by linarith
    have "a + 1 = k * (a div k) + (a mod k + 1)" using e by linarith
    from int_div_pos_eq[OF this] int_mod_pos_eq[OF this] lt m show ?thesis by simp
  qed
qed

lemma DayFromYear_step: "DayFromYear (y + 1) = DayFromYear y + DaysInYear y"
proof -
  have a: "(y + 1 - 1969) div 4 = (y - 1969) div 4 + (if y mod 4 = 0 then 1 else 0)"
  proof -
    have "(y + 4 * (- 492)) mod 4 = y mod 4" by (rule mod_mult_self2)
    hence "(y - 1969 + 1) mod 4 = y mod 4" by simp
    thus ?thesis using div_Suc_int[of 4 "y - 1969"] by (simp add: algebra_simps)
  qed
  have b: "(y + 1 - 1901) div 100 = (y - 1901) div 100 + (if y mod 100 = 0 then 1 else 0)"
  proof -
    have "(y + 100 * (- 19)) mod 100 = y mod 100" by (rule mod_mult_self2)
    hence "(y - 1901 + 1) mod 100 = y mod 100" by simp
    thus ?thesis using div_Suc_int[of 100 "y - 1901"] by (simp add: algebra_simps)
  qed
  have c: "(y + 1 - 1601) div 400 = (y - 1601) div 400 + (if y mod 400 = 0 then 1 else 0)"
  proof -
    have "(y + 400 * (- 4)) mod 400 = y mod 400" by (rule mod_mult_self2)
    hence "(y - 1601 + 1) mod 400 = y mod 400" by simp
    thus ?thesis using div_Suc_int[of 400 "y - 1601"] by (simp add: algebra_simps)
  qed
  have d1: "y mod 100 = 0 \<Longrightarrow> y mod 4 = 0"
    using dvd_trans[of 4 100 y] by (simp add: mod_eq_0_iff_dvd)
  have d2: "y mod 400 = 0 \<Longrightarrow> y mod 100 = 0"
    using dvd_trans[of 100 400 y] by (simp add: mod_eq_0_iff_dvd)
  show ?thesis unfolding DayFromYear_def DaysInYear_def a b c using d1 d2 by auto
qed

lemma DaysInYear_range: "365 \<le> DaysInYear y \<and> DaysInYear y \<le> 366"
  unfolding DaysInYear_def by simp

lemma DayFromYear_less_step: "DayFromYear y < DayFromYear (y + 1)"
  using DayFromYear_step[of y] DaysInYear_range[of y] by linarith

lemma DayFromYear_mono: "y \<le> z \<Longrightarrow> DayFromYear y \<le> DayFromYear z"
proof (induction z rule: int_ge_induct)
  case base
  show ?case by simp
next
  case (step i)
  thus ?case using DayFromYear_less_step[of i] by linarith
qed

lemma DayFromYear_strict_mono: "y < z \<Longrightarrow> DayFromYear y < DayFromYear z"
  using DayFromYear_mono[of "y + 1" z] DayFromYear_less_step[of y] by linarith

lemma YearFromTime_unique:
  assumes "DayFromYear y \<le> Day t" "Day t < DayFromYear (y + 1)"
  shows "YearFromTime t = y"
proof (rule ccontr)
  assume ne: "YearFromTime t \<noteq> y"
  note b = YearFromTime_bounds[of t]
  show False
  proof (cases "YearFromTime t < y")
    case True
    hence "DayFromYear (YearFromTime t + 1) \<le> DayFromYear y"
      by (intro DayFromYear_mono) simp
    thus False using b assms by linarith
  next
    case False
    hence "DayFromYear (y + 1) \<le> DayFromYear (YearFromTime t)"
      using ne by (intro DayFromYear_mono) simp
    thus False using b assms by linarith
  qed
qed

lemma DayWithinYear_range:
  "0 \<le> DayWithinYear t \<and> DayWithinYear t < DaysInYear (YearFromTime t)"
  unfolding DayWithinYear_def
  using YearFromTime_bounds[of t] DayFromYear_step[of "YearFromTime t"] by linarith

lemma MonthFromTime_range: "0 \<le> MonthFromTime t \<and> MonthFromTime t \<le> 11"
  unfolding MonthFromTime_def Let_def by simp

lemma InLeapYear_cases: "InLeapYear t = 0 \<or> InLeapYear t = 1"
  unfolding InLeapYear_def by simp

lemma DaysInYear_InLeapYear: "DaysInYear (YearFromTime t) = 365 + InLeapYear t"
  unfolding InLeapYear_def using DaysInYear_range[of "YearFromTime t"]
  by (simp add: DaysInYear_def)

lemma MonthStart_range: "0 \<le> l \<Longrightarrow> 0 \<le> MonthStart l mn \<and> MonthStart l mn \<le> 334 + l"
  unfolding MonthStart_def by simp

text \<open>The day within the year lies in the month that \<open>MonthFromTime\<close> returns.\<close>

lemma MonthFromTime_bounds:
  "MonthStart (InLeapYear t) (MonthFromTime t) \<le> DayWithinYear t \<and>
   DayWithinYear t <
     (if MonthFromTime t = 11 then 365 + InLeapYear t
      else MonthStart (InLeapYear t) (MonthFromTime t + 1)) \<and>
   (if MonthFromTime t = 11 then 365 + InLeapYear t
      else MonthStart (InLeapYear t) (MonthFromTime t + 1))
     \<le> MonthStart (InLeapYear t) (MonthFromTime t) + 31"
proof -
  have d: "0 \<le> DayWithinYear t" "DayWithinYear t < 365 + InLeapYear t"
    using DayWithinYear_range[of t] DaysInYear_InLeapYear[of t] by simp_all
  have l: "0 \<le> InLeapYear t" "InLeapYear t \<le> 1"
    using InLeapYear_cases[of t] by auto
  show ?thesis
    using d l by (simp add: MonthFromTime_def MonthStart_def Let_def)
qed

lemma Day_decomp: "Day t = DayFromYear (YearFromTime t) + DayWithinYear t"
  unfolding DayWithinYear_def by simp

lemma MakeDay_next_month:
  "Day t < MakeDay (YearFromTime t) (MonthFromTime t + 1) 1 \<and>
   MakeDay (YearFromTime t) (MonthFromTime t + 1) 1 \<le> Day t + 31"
proof (cases "MonthFromTime t = 11")
  case True
  have "MakeDay (YearFromTime t) (MonthFromTime t + 1) 1 = DayFromYear (YearFromTime t + 1)"
    unfolding True MakeDay_def Let_def by (simp add: MonthStart_def)
  also have "\<dots> = DayFromYear (YearFromTime t) + (365 + InLeapYear t)"
    using DayFromYear_step[of "YearFromTime t"] DaysInYear_InLeapYear[of t] by simp
  finally show ?thesis
    using MonthFromTime_bounds[of t] True Day_decomp[of t] by simp
next
  case False
  hence r: "0 \<le> MonthFromTime t + 1" "MonthFromTime t + 1 < 12"
    using MonthFromTime_range[of t] by simp_all
  have "MakeDay (YearFromTime t) (MonthFromTime t + 1) 1 =
        DayFromYear (YearFromTime t) + MonthStart (InLeapYear t) (MonthFromTime t + 1)"
    unfolding MakeDay_def Let_def InLeapYear_def using r by simp
  thus ?thesis
    using MonthFromTime_bounds[of t] False Day_decomp[of t] by simp
qed

lemma MakeDay_year_mono:
  assumes "y \<le> z"
  shows "MakeDay y m d \<le> MakeDay z m d"
proof (cases "y = z")
  case True
  thus ?thesis by simp
next
  case False
  define ym where "ym = y + m div 12"
  define zm where "zm = z + m div 12"
  define ly where "ly = (if DaysInYear ym = 366 then 1 else 0::int)"
  define lz where "lz = (if DaysInYear zm = 366 then 1 else 0::int)"
  have "ym + 1 \<le> zm" using assms False unfolding ym_def zm_def by simp
  hence "DayFromYear (ym + 1) \<le> DayFromYear zm" by (rule DayFromYear_mono)
  hence a: "DayFromYear ym + DaysInYear ym \<le> DayFromYear zm"
    using DayFromYear_step[of ym] by simp
  have b: "MonthStart ly (m mod 12) \<le> 334 + ly" "0 \<le> MonthStart lz (m mod 12)"
    using MonthStart_range[of ly "m mod 12"] MonthStart_range[of lz "m mod 12"]
    unfolding ly_def lz_def by simp_all
  have c: "334 + ly \<le> DaysInYear ym"
    using DaysInYear_range[of ym] unfolding ly_def by simp
  have "MakeDay y m d = DayFromYear ym + MonthStart ly (m mod 12) + d - 1"
    unfolding MakeDay_def Let_def ym_def ly_def ..
  moreover have "MakeDay z m d = DayFromYear zm + MonthStart lz (m mod 12) + d - 1"
    unfolding MakeDay_def Let_def zm_def lz_def ..
  ultimately show ?thesis using a b c by linarith
qed

lemma MakeFullYear_ge: "y \<le> MakeFullYear y"
  unfolding MakeFullYear_def by simp

lemma time_less_next_day:
  assumes "Day t < d"
  shows "t < MakeDate d 0"
proof -
  have "t < msPerDay * (t div msPerDay) + msPerDay"
    by (rule div_upper) (simp add: msPerDay_def)
  hence "t < (Day t + 1) * msPerDay" unfolding Day_def by (simp add: algebra_simps)
  moreover have "(Day t + 1) * msPerDay \<le> d * msPerDay"
    using assms by (intro mult_right_mono) (simp_all add: msPerDay_def)
  ultimately show ?thesis unfolding MakeDate_def by simp
qed

lemma TimeClip_Some: "TimeClip t = Some n \<Longrightarrow> n = t \<and> \<bar>t\<bar> \<le> maxTime"
  unfolding TimeClip_def by (simp split: if_splits)

text \<open>The start of the next month, and of the next year, is later than the current instant.\<close>

lemma next_month_later:
  assumes "Date_UTC (Some (getUTCFullYear c)) (Some (getUTCMonth c + 1)) 1 = Some n"
  shows "c < n"
proof -
  have "Day c < MakeDay (YearFromTime c) (MonthFromTime c + 1) 1"
    using MakeDay_next_month[of c] by simp
  also have "\<dots> \<le> MakeDay (MakeFullYear (YearFromTime c)) (MonthFromTime c + 1) 1"
    by (rule MakeDay_year_mono) (rule MakeFullYear_ge)
  finally have "c < MakeDate (MakeDay (MakeFullYear (YearFromTime c)) (MonthFromTime c + 1) 1) 0"
    by (rule time_less_next_day)
  thus ?thesis
    using assms TimeClip_Some unfolding Date_UTC_def getUTCFullYear_def getUTCMonth_def
    by fastforce
qed

lemma MakeDay_Jan: "MakeDay y 0 1 = DayFromYear y"
  unfolding MakeDay_def Let_def MonthStart_def by simp

lemma next_year_later:
  assumes "Date_UTC (Some (getUTCFullYear c + 1)) (Some 0) 1 = Some n"
  shows "c < n"
proof -
  have "Day c < DayFromYear (YearFromTime c + 1)"
    using YearFromTime_bounds[of c] by simp
  also have "\<dots> \<le> DayFromYear (MakeFullYear (YearFromTime c + 1))"
    by (rule DayFromYear_mono) (rule MakeFullYear_ge)
  finally have "c < MakeDate (MakeDay (MakeFullYear (YearFromTime c + 1)) 0 1) 0"
    unfolding MakeDay_Jan by (rule time_less_next_day)
  thus ?thesis
    using assms TimeClip_Some unfolding Date_UTC_def getUTCFullYear_def
    by fastforce
qed

subsection \<open>The two loops\<close>

text \<open>
  \<open>now\<close> is the time value of \<open>new Date()\<close>, the clock at the call; it is always a
  valid date.  Each \<open>while\<close> loop is a recursive function of the loop variable
  \<open>current\<close> and of the array \<open>ranges\<close> built so far.  \<open>current\<close> is valid whenever
  the loop body runs, so only \<open>next.toISOString()\<close> can throw.
\<close>

function month_loop :: "int \<Rightarrow> Date \<Rightarrow> date_range list \<Rightarrow> error + date_range list" where
  "month_loop now None ranges = Inr ranges"
| "month_loop now (Some c) ranges =
     (if isBefore (Some c) (Some now) then
        (let next = Date_UTC (Some (getUTCFullYear c)) (Some (getUTCMonth c + 1)) 1
         in case toISOString next of
              Inl e \<Rightarrow> Inl e
            | Inr n \<Rightarrow> month_loop now next (ranges @ [\<lparr>from = c, to = n\<rparr>]))
      else Inr ranges)"
  by pat_completeness auto
termination
  by (relation "measure (\<lambda>(now, current, ranges). case current of None \<Rightarrow> 0 | Some c \<Rightarrow> nat (now - c))")
     (auto simp: isBefore_def toISOString_def split: option.splits dest: next_month_later)

function year_loop :: "int \<Rightarrow> Date \<Rightarrow> date_range list \<Rightarrow> error + date_range list" where
  "year_loop now None ranges = Inr ranges"
| "year_loop now (Some c) ranges =
     (if isBefore (Some c) (Some now) then
        (let next = Date_UTC (Some (getUTCFullYear c + 1)) (Some 0) 1
         in case toISOString next of
              Inl e \<Rightarrow> Inl e
            | Inr n \<Rightarrow> year_loop now next (ranges @ [\<lparr>from = c, to = n\<rparr>]))
      else Inr ranges)"
  by pat_completeness auto
termination
  by (relation "measure (\<lambda>(now, current, ranges). case current of None \<Rightarrow> 0 | Some c \<Rightarrow> nat (now - c))")
     (auto simp: isBefore_def toISOString_def split: option.splits dest: next_year_later)

definition calculateDateRanges :: "int \<Rightarrow> string \<Rightarrow> number \<Rightarrow> number \<Rightarrow> error + date_range list" where
  "calculateDateRanges now chunk fromYear fromMonth =
     (case (if chunk = ''month'' then month_loop now (Date_UTC fromYear fromMonth 1) []
            else Inr []) of
        Inl e \<Rightarrow> Inl e
      | Inr ranges \<Rightarrow>
          if chunk = ''year'' then year_loop now (Date_UTC fromYear (Some 0) 1) ranges
          else Inr ranges)"

section \<open>Remote calls\<close>

text \<open>
  A remote call is awaited where it is made: it takes the state of the remote side, and
  gives its answer, or the failure it throws, together with the state it leaves.  The state
  \<open>'s\<close> is whatever the remote side keeps; a call made twice may be answered differently.
\<close>

type_synonym ('q, 'a, 's) remote = "'q \<Rightarrow> 's \<Rightarrow> (error + 'a) \<times> 's"

section \<open>fetchContributions\<close>

text \<open>
  The sum \<open>contributions\<close> is a JavaScript number, a double.  The model holds the doubles
  whose value is an integer, and the three that are not finite.  \<open>round_to_double\<close> rounds
  an integer to the nearest one that a double holds (53 significant bits, ties to the even
  one); beyond the largest double the result is an infinity.
\<close>

datatype double = Finite int | Infinity | MinusInfinity | NotANumber

function excess_bits :: "int \<Rightarrow> nat" where
  "excess_bits n = (if n < 9007199254740992 then 0 else Suc (excess_bits (n div 2)))"
  by pat_completeness auto
termination
  by (relation "measure nat") simp_all

definition round_to_double :: "int \<Rightarrow> int" where
  "round_to_double x =
     (let n = \<bar>x\<bar>; e = excess_bits n
      in if e = 0 then x
         else (let q = n div 2 ^ e; r = n mod 2 ^ e; h = 2 ^ (e - 1);
                   q' = (if h < r \<or> (r = h \<and> odd q) then q + 1 else q)
               in sgn x * (q' * 2 ^ e)))"

definition to_double :: "int \<Rightarrow> double" where
  "to_double x =
     (let r = round_to_double x
      in if 2 ^ 1024 \<le> r then Infinity
         else if r \<le> - (2 ^ 1024) then MinusInfinity
         else Finite r)"

text \<open>\<open>a + b\<close> on these numbers.\<close>

definition js_add :: "double \<Rightarrow> double \<Rightarrow> double" where
  "js_add x y =
     (case x of
        Finite a \<Rightarrow> (case y of Finite b \<Rightarrow> to_double (a + b) | _ \<Rightarrow> y)
      | Infinity \<Rightarrow>
          (case y of MinusInfinity \<Rightarrow> NotANumber | NotANumber \<Rightarrow> NotANumber | _ \<Rightarrow> Infinity)
      | MinusInfinity \<Rightarrow>
          (case y of Infinity \<Rightarrow> NotANumber | NotANumber \<Rightarrow> NotANumber | _ \<Rightarrow> MinusInfinity)
      | NotANumber \<Rightarrow> NotANumber)"

text \<open>
  \<open>octokit(query, { login, start, end })\<close>: the GraphQL client is called with the variables
  \<open>(login, start, end)\<close>.  Its answer is the integer written at
  \<open>response.user.contributionsCollection.contributionCalendar.totalContributions\<close>, which
  JavaScript reads as the nearest double, or the failure that the awaited call throws.
\<close>

type_synonym 's graphql_client = "(string \<times> int \<times> int, int, 's) remote"

text \<open>
  The counter goes up by one from 0 for each element of an array, and an array has fewer
  than \<open>2^32\<close> elements, so the counter is an integer that a double holds exactly.
\<close>

record contributions_result =
  contributions :: double
  fetchContributionsAPICallCount :: int

text \<open>The \<open>for ... of\<close> loop over the yearly ranges; \<open>acc\<close> holds the two counters.\<close>

fun fetchContributions_loop ::
  "'s graphql_client \<Rightarrow> string \<Rightarrow> date_range list \<Rightarrow> contributions_result \<Rightarrow> 's \<Rightarrow>
   (error + contributions_result) \<times> 's" where
  "fetchContributions_loop octokit username [] acc s = (Inr acc, s)"
| "fetchContributions_loop octokit username (date # rest) acc s =
     (case octokit (username, from date, to date) s of
        (Inl e, s') \<Rightarrow> (Inl e, s')
      | (Inr totalContributions, s') \<Rightarrow>
          fetchContributions_loop octokit username rest
            (acc\<lparr>contributions := js_add (contributions acc) (to_double totalContributions),
                 fetchContributionsAPICallCount := fetchContributionsAPICallCount acc + 1\<rparr>)
            s')"

text \<open>\<open>creationDate\<close> is \<open>new Date(since)\<close>; \<open>tza\<close> is the local time offset of the host.\<close>

definition fetchContributions ::
  "int \<Rightarrow> (int \<Rightarrow> int) \<Rightarrow> 's graphql_client \<Rightarrow> string \<Rightarrow> Date \<Rightarrow> 's \<Rightarrow>
   (error + contributions_result) \<times> 's" where
  "fetchContributions now tza octokit username creationDate s =
     (let creationYear = getFullYear tza creationDate
      in case calculateDateRanges now ''year'' creationYear (Some 0) of
           Inl e \<Rightarrow> (Inl e, s)
         | Inr yearlyDateRanges \<Rightarrow>
             fetchContributions_loop octokit username yearlyDateRanges
               \<lparr>contributions = Finite 0, fetchContributionsAPICallCount = 0\<rparr> s)"

section \<open>fetchLinesOfCode\<close>

text \<open>
  The REST client.  \<open>search_commits\<close> is \<open>octokit.rest.search.commits\<close> as \<open>octokit.paginate\<close>
  drives it, for the query \<open>author:<username> committer-date:<from>..<to>\<close> given by
  \<open>(username, from, to)\<close>: the pages of the answer, one list of commits for each page
  fetched, or the failure.  A commit is its \<open>url\<close>.  \<open>request\<close> is \<open>GET <url>\<close>; its answer is
  \<open>(data.stats.additions, data.stats.deletions)\<close>.  \<open>getReadme\<close> takes \<open>(owner, repo)\<close> and
  answers \<open>data.sha\<close>.
\<close>

record file_update =
  owner :: string
  repo :: string
  path :: string
  message :: string
  content :: string
  sha :: string

record 's rest_client =
  search_commits :: "(string \<times> int \<times> int, string list list, 's) remote"
  request :: "(string, int \<times> int, 's) remote"
  getReadme :: "(string \<times> string, string, 's) remote"
  createOrUpdateFileContents :: "(file_update, unit, 's) remote"

text \<open>\<open>octokit.paginate\<close> fetches every page and returns the items of all pages.\<close>

definition paginate :: "('q, 'a list list, 's) remote \<Rightarrow> ('q, 'a list, 's) remote" where
  "paginate method params s =
     (case method params s of
        (Inl e, s') \<Rightarrow> (Inl e, s')
      | (Inr pages, s') \<Rightarrow> (Inr (concat pages), s'))"

text \<open>
  The two sums are JavaScript numbers, doubles, as \<open>contributions\<close> is; the statistics of a
  commit are the integers written in the answer.  The counter goes up by one for each call
  made, and a run makes fewer than \<open>2^53\<close> calls, so it is an integer that a double holds
  exactly.
\<close>

record lines_result =
  additions :: double
  deletions :: double
  fetchLinesOfCodeAPICallCount :: int

text \<open>The inner loop, over the commits of one month.\<close>

fun fetchLinesOfCode_commits ::
  "'s rest_client \<Rightarrow> string list \<Rightarrow> lines_result \<Rightarrow> 's \<Rightarrow> (error + lines_result) \<times> 's" where
  "fetchLinesOfCode_commits octokit [] acc s = (Inr acc, s)"
| "fetchLinesOfCode_commits octokit (commit # rest) acc s =
     (case request octokit commit s of
        (Inl e, s') \<Rightarrow> (Inl e, s')
      | (Inr (a, d), s') \<Rightarrow>
          fetchLinesOfCode_commits octokit rest
            (acc\<lparr>additions := js_add (additions acc) (to_double a),
                 deletions := js_add (deletions acc) (to_double d),
                 fetchLinesOfCodeAPICallCount := fetchLinesOfCodeAPICallCount acc + 1\<rparr>)
            s')"

text \<open>
  The outer loop, over the monthly ranges.  The two seconds of waiting after each month
  change no value and are left out.
\<close>

fun fetchLinesOfCode_loop ::
  "'s rest_client \<Rightarrow> string \<Rightarrow> date_range list \<Rightarrow> lines_result \<Rightarrow> 's \<Rightarrow>
   (error + lines_result) \<times> 's" where
  "fetchLinesOfCode_loop octokit username [] acc s = (Inr acc, s)"
| "fetchLinesOfCode_loop octokit username (date # rest) acc s =
     (case paginate (search_commits octokit) (username, from date, to date) s of
        (Inl e, s') \<Rightarrow> (Inl e, s')
      | (Inr commits, s') \<Rightarrow>
          (case fetchLinesOfCode_commits octokit commits
                  (acc\<lparr>fetchLinesOfCodeAPICallCount := fetchLinesOfCodeAPICallCount acc + 1\<rparr>)
                  s' of
             (Inl e, s'') \<Rightarrow> (Inl e, s'')
           | (Inr acc', s'') \<Rightarrow> fetchLinesOfCode_loop octokit username rest acc' s''))"

definition fetchLinesOfCode ::
  "int \<Rightarrow> (int \<Rightarrow> int) \<Rightarrow> 's rest_client \<Rightarrow> string \<Rightarrow> Date \<Rightarrow> 's \<Rightarrow>
   (error + lines_result) \<times> 's" where
  "fetchLinesOfCode now tza octokit username startDate s =
     (let startMonth = getMonth tza startDate;
          startYear = getFullYear tza startDate
      in case calculateDateRanges now ''month'' startYear startMonth of
           Inl e \<Rightarrow> (Inl e, s)
         | Inr monthlyDateRanges \<Rightarrow>
             fetchLinesOfCode_loop octokit username monthlyDateRanges
               \<lparr>additions = Finite 0, deletions = Finite 0, fetchLinesOfCodeAPICallCount = 0\<rparr> s)"

section \<open>commitPopulatedTemplate\<close>

text \<open>
  \<open>Buffer.from(populatedTemplate).toString("base64")\<close>: the text as UTF-8 bytes (a
  character below 128 is one byte, one from 128 to 255 is two), then base64.
\<close>

definition utf8 :: "string \<Rightarrow> nat list" where
  "utf8 s = concat (map (\<lambda>c. let n = of_char c
                              in if n < 128 then [n] else [192 + n div 64, 128 + n mod 64]) s)"

definition base64_digit :: "nat \<Rightarrow> char" where
  "base64_digit n =
     (''ABCDEFGHIJKLMNOPQRSTUVWXYZabcdefghijklmnopqrstuvwxyz0123456789+/'') ! (n mod 64)"

fun base64 :: "nat list \<Rightarrow> string" where
  "base64 (a # b # c # rest) =
     [base64_digit (a div 4), base64_digit ((a mod 4) * 16 + b div 16),
      base64_digit ((b mod 16) * 4 + c div 64), base64_digit (c mod 64)] @ base64 rest"
| "base64 [a, b] =
     [base64_digit (a div 4), base64_digit ((a mod 4) * 16 + b div 16),
      base64_digit ((b mod 16) * 4), CHR ''='']"
| "base64 [a] =
     [base64_digit (a div 4), base64_digit ((a mod 4) * 16), CHR ''='', CHR ''='']"
| "base64 [] = []"

definition commitPopulatedTemplate ::
  "'s rest_client \<Rightarrow> string \<Rightarrow> string \<Rightarrow> 's \<Rightarrow> (error + int) \<times> 's" where
  "commitPopulatedTemplate octokit username populatedTemplate s =
     (let commitPopulatedTemplateAPICallCount = 0
      in case getReadme octokit (username, username) s of
           (Inl e, s') \<Rightarrow> (Inl e, s')
         | (Inr readmeSha, s') \<Rightarrow>
             (let commitPopulatedTemplateAPICallCount = commitPopulatedTemplateAPICallCount + 1
              in case createOrUpdateFileContents octokit
                        \<lparr>owner = username, repo = username, path = ''readme.md'',
                         message = ''chore: update generated content'',
                         content = base64 (utf8 populatedTemplate),
                         sha = readmeSha\<rparr> s' of
                   (Inl e, s'') \<Rightarrow> (Inl e, s'')
                 | (Inr _, s'') \<Rightarrow> (Inr (commitPopulatedTemplateAPICallCount + 1), s'')))"

section \<open>generatePopulatedTemplate\<close>

text \<open>
  A string of JavaScript is a sequence of 16-bit code units, and its \<open>length\<close> is their
  number.  \<open>js\<close> gives the string that a literal of the source denotes; the characters of
  the literals are below 128, one code unit each.
\<close>

type_synonym jsstring = "16 word list"

definition js :: "string \<Rightarrow> jsstring" where
  "js s = map (\<lambda>c. of_nat (of_char c)) s"

text \<open>
  The dot of a regular expression (without the flag \<open>s\<close>) matches every code unit but a
  line terminator: line feed, carriage return, line separator, paragraph separator.
\<close>

definition is_line_terminator :: "16 word \<Rightarrow> bool" where
  "is_line_terminator c = (c = 0x000A \<or> c = 0x000D \<or> c = 0x2028 \<or> c = 0x2029)"

text \<open>
  White space: tab, vertical tab, form feed, the byte order mark, and the space separators
  of Unicode.  \<open>trim\<close> removes white space and line terminators from both ends.
\<close>

definition is_white_space :: "16 word \<Rightarrow> bool" where
  "is_white_space c =
     (c = 0x0009 \<or> c = 0x000B \<or> c = 0x000C \<or> c = 0xFEFF \<or>
      c = 0x0020 \<or> c = 0x00A0 \<or> c = 0x1680 \<or> (0x2000 \<le> c \<and> c \<le> 0x200A) \<or>
      c = 0x202F \<or> c = 0x205F \<or> c = 0x3000)"

definition trim :: "jsstring \<Rightarrow> jsstring" where
  "trim s =
     rev (dropWhile (\<lambda>c. is_white_space c \<or> is_line_terminator c)
       (rev (dropWhile (\<lambda>c. is_white_space c \<or> is_line_terminator c) s)))"

text \<open>
  The values that the callback meets.  A value is \<open>undefined\<close>, \<open>null\<close>, a string, or another
  value: a boolean, a number, an array, a function, an object.  Of such a value the
  callback uses two things, which \<open>Other len text\<close> records: the number that \<open>value.length\<close>
  converts to, \<open>None\<close> for not-a-number (the value has no \<open>length\<close>) and \<open>Some n\<close> for the
  integer \<open>n\<close>, and the string \<open>text\<close> that a template literal prints for the value.  Values
  with a negative, fractional or infinite \<open>length\<close>, and values for which one of the two
  conversions throws, are outside this type.
\<close>

datatype jsvalue = Undefined | Null | String jsstring | Other "nat option" jsstring

text \<open>\<open>a ?? b\<close>\<close>

definition nullish_coalescing :: "jsvalue \<Rightarrow> jsvalue \<Rightarrow> jsvalue" where
  "nullish_coalescing a b = (case a of Undefined \<Rightarrow> b | Null \<Rightarrow> b | _ \<Rightarrow> a)"

text \<open>
  \<open>value.length\<close>, as the subtraction converts it to a number (\<open>None\<close> is not-a-number).
  \<open>undefined\<close> and \<open>null\<close> have no properties: the read throws.
\<close>

definition length_of :: "jsvalue \<Rightarrow> error + number" where
  "length_of value =
     (case value of
        Undefined \<Rightarrow> Inl TypeError
      | Null \<Rightarrow> Inl TypeError
      | String s \<Rightarrow> Inr (Some (int (length s)))
      | Other len text \<Rightarrow> Inr (map_option int len))"

text \<open>The string that the template literal prints for \<open>${value}\<close>.\<close>

definition ToString :: "jsvalue \<Rightarrow> jsstring" where
  "ToString value =
     (case value of
        Undefined \<Rightarrow> js ''undefined''
      | Null \<Rightarrow> js ''null''
      | String s \<Rightarrow> s
      | Other len text \<Rightarrow> text)"

text \<open>
  Subtraction and \<open>Math.max\<close> on numbers: not-a-number when an operand is.  The operands
  here are integers; a difference is exact, or, for a \<open>length\<close> from \<open>2^53\<close> on, negative
  both as computed here and as the double that JavaScript rounds it to, so that
  \<open>Math.max(0, ...)\<close> is the same.
\<close>

definition minus_number :: "number \<Rightarrow> number \<Rightarrow> number" where
  "minus_number a b =
     (case a of None \<Rightarrow> None | Some x \<Rightarrow> (case b of None \<Rightarrow> None | Some y \<Rightarrow> Some (x - y)))"

definition Math_max :: "number \<Rightarrow> number \<Rightarrow> number" where
  "Math_max a b =
     (case a of None \<Rightarrow> None | Some x \<Rightarrow> (case b of None \<Rightarrow> None | Some y \<Rightarrow> Some (max x y)))"

text \<open>
  \<open>s.repeat(count)\<close>: not-a-number counts as 0, and a negative count throws.
\<close>

definition repeat :: "jsstring \<Rightarrow> number \<Rightarrow> error + jsstring" where
  "repeat s count =
     (case count of
        None \<Rightarrow> Inr []
      | Some n \<Rightarrow> if n < 0 then Inl RangeError else Inr (concat (replicate (nat n) s)))"

text \<open>
  The rest of the pattern \<open>{{(.*?)}}\<close> after the opening braces: the lazy group takes as few
  code units as it can, so at each position the closing braces are tried first, and only
  then one more code unit that is not a line terminator.  The result is the text of the
  group and the text after the match.  The braces \<open>{\<close> and \<open>}\<close> are the code units \<open>0x7B\<close> and
  \<open>0x7D\<close>.
\<close>

fun match_key :: "jsstring \<Rightarrow> (jsstring \<times> jsstring) option" where
  "match_key [] = None"
| "match_key (c # cs) =
     (if c = 0x7D \<and> cs \<noteq> [] \<and> hd cs = 0x7D then Some ([], tl cs)
      else if is_line_terminator c then None
      else (case match_key cs of
              None \<Rightarrow> None
            | Some (key, rest) \<Rightarrow> Some (c # key, rest)))"

lemma match_key_shorter: "match_key s = Some (key, rest) \<Longrightarrow> length rest < length s"
proof (induction s arbitrary: key rest)
  case Nil
  thus ?case by simp
next
  case (Cons c cs)
  thus ?case
    by (cases cs) (auto split: if_splits option.splits prod.splits simp: less_Suc_eq)
qed

text \<open>
  \<open>template.replace(/{{(.*?)}}/g, f)\<close> first collects the matches of the pattern, scanning
  the text from the left: where the pattern matches, the match is recorded with the text of
  its group and the scan goes on after the match; elsewhere the code unit is kept and the
  scan goes on with the next one.
\<close>

datatype segment = Text "16 word" | Placeholder jsstring

function scan :: "jsstring \<Rightarrow> segment list" where
  "scan [] = []"
| "scan (c # cs) =
     (if c = 0x7B \<and> cs \<noteq> [] \<and> hd cs = 0x7B then
        (case match_key (tl cs) of
           Some (key, rest) \<Rightarrow> Placeholder key # scan rest
         | None \<Rightarrow> Text c # scan cs)
      else Text c # scan cs)"
  by pat_completeness auto
termination
proof (relation "measure length")
  show "wf (measure length)" by simp
next
  fix c :: "16 word" and cs x2 x y
  assume "c = 0x7B \<and> cs \<noteq> [] \<and> hd cs = 0x7B" "match_key (tl cs) = Some x2" "(x, y) = x2"
  hence "length y < length (tl cs)" using match_key_shorter[of "tl cs" x y] by simp
  thus "(y, c # cs) \<in> measure length" by simp
qed simp_all

text \<open>
  Then the callback \<open>f\<close> is called for each match in turn, with the text of the group as
  \<open>key\<close>, and its results take the places of the matches.  A call that throws ends the
  replacement.
\<close>

fun substitute :: "(jsstring \<Rightarrow> error + jsstring) \<Rightarrow> segment list \<Rightarrow> error + jsstring" where
  "substitute f [] = Inr []"
| "substitute f (Text c # rest) =
     (case substitute f rest of Inl e \<Rightarrow> Inl e | Inr out \<Rightarrow> Inr (c # out))"
| "substitute f (Placeholder key # rest) =
     (case f key of
        Inl e \<Rightarrow> Inl e
      | Inr replacement \<Rightarrow>
          (case substitute f rest of Inl e \<Rightarrow> Inl e | Inr out \<Rightarrow> Inr (replacement @ out)))"

definition replace :: "(jsstring \<Rightarrow> error + jsstring) \<Rightarrow> jsstring \<Rightarrow> error + jsstring" where
  "replace f template = substitute f (scan template)"

text \<open>
  The callback \<open>(_, key) => { ... }\<close>.  \<open>stats k\<close> is the value that the read \<open>stats[k]\<close> gives,
  own or inherited; \<open>stats\<close> itself is neither \<open>undefined\<close> nor \<open>null\<close>.
\<close>

definition replacer :: "(jsstring \<Rightarrow> jsvalue) \<Rightarrow> jsstring \<Rightarrow> error + jsstring" where
  "replacer stats key =
     (let value = nullish_coalescing (stats (trim key)) (String (js ''N/A''))
      in case length_of value of
           Inl e \<Rightarrow> Inl e
         | Inr value_length \<Rightarrow>
             (case repeat (js ''.'')
                     (Math_max (Some 0)
                        (minus_number
                           (minus_number (Some (64 - 5)) (Some (int (length key))))
                           value_length)) of
                Inl e \<Rightarrow> Inl e
              | Inr dots \<Rightarrow> Inr (dots @ js '' '' @ ToString value)))"

text \<open>\<open>template\<close> is the text read from \<open>template.txt\<close>.\<close>

definition generatePopulatedTemplate ::
  "jsstring \<Rightarrow> (jsstring \<Rightarrow> jsvalue) \<Rightarrow> error + jsstring" where
  "generatePopulatedTemplate template stats = replace (replacer stats) template"




section \<open>Objects\<close>

text \<open>
  The properties that an object inherits from \<open>Object.prototype\<close>: the constructor and the
  built-in methods, which are functions, and the accessor \<open>__proto__\<close>, which gives the
  prototype of the object read, \<open>Object.prototype\<close> itself.  The \<open>length\<close> of a function is
  the number of its parameters, and Node.js prints a built-in function \<open>name\<close> as
  \<open>function name() { [native code] }\<close>; \<open>Object.prototype\<close> has no \<open>length\<close> and is printed as
  \<open>[object Object]\<close>.  Every other name reads as \<open>undefined\<close>.
\<close>

definition native_function :: "nat \<Rightarrow> string \<Rightarrow> jsvalue" where
  "native_function n name = Other (Some n) (js (''function '' @ name @ ''() { [native code] }''))"

definition Object_prototype :: "jsstring \<Rightarrow> jsvalue" where
  "Object_prototype k =
     (if k = js ''constructor'' then native_function 1 ''Object''
      else if k = js ''__defineGetter__'' then native_function 2 ''__defineGetter__''
      else if k = js ''__defineSetter__'' then native_function 2 ''__defineSetter__''
      else if k = js ''hasOwnProperty'' then native_function 1 ''hasOwnProperty''
      else if k = js ''__lookupGetter__'' then native_function 1 ''__lookupGetter__''
      else if k = js ''__lookupSetter__'' then native_function 1 ''__lookupSetter__''
      else if k = js ''isPrototypeOf'' then native_function 1 ''isPrototypeOf''
      else if k = js ''propertyIsEnumerable'' then native_function 1 ''propertyIsEnumerable''
      else if k = js ''toString'' then native_function 0 ''toString''
      else if k = js ''valueOf'' then native_function 0 ''valueOf''
      else if k = js ''toLocaleString'' then native_function 0 ''toLocaleString''
      else if k = js ''__proto__'' then Other None (js ''[object Object]'')
      else Undefined)"

text \<open>
  The reads of an object written as a literal, such as the \<open>stats\<close> of the two scripts:
  \<open>props\<close> holds its own properties, and a name that is not among them is read from
  \<open>Object.prototype\<close>.
\<close>

definition object_literal :: "(jsstring \<rightharpoonup> jsvalue) \<Rightarrow> jsstring \<Rightarrow> jsvalue" where
  "object_literal props k = (case props k of Some v \<Rightarrow> v | None \<Rightarrow> Object_prototype k)"

section \<open>Notions used in the claims\<close>

text \<open>
  The instant at which the loop of a chunk starts: the first of the month for \<open>month\<close>,
  the first of January for \<open>year\<close>, whatever \<open>fromMonth\<close> is.  Any other \<open>chunk\<close> runs
  no loop.
\<close>

definition first_instant :: "string \<Rightarrow> number \<Rightarrow> number \<Rightarrow> Date" where
  "first_instant chunk fromYear fromMonth =
     (if chunk = ''month'' then Date_UTC fromYear fromMonth 1
      else if chunk = ''year'' then Date_UTC fromYear (Some 0) 1
      else None)"

text \<open>
  The instant that follows \<open>current\<close> in each loop.
\<close>

definition next_month :: "int \<Rightarrow> Date" where
  "next_month c = Date_UTC (Some (getUTCFullYear c)) (Some (getUTCMonth c + 1)) 1"

definition next_year :: "int \<Rightarrow> Date" where
  "next_year c = Date_UTC (Some (getUTCFullYear c + 1)) (Some 0) 1"

text \<open>
  \<open>chain_from s rs\<close>: the ranges \<open>rs\<close> start at \<open>s\<close>, each range is not empty, and each
  range ends where the next one starts.
\<close>

fun chain_from :: "int \<Rightarrow> date_range list \<Rightarrow> bool" where
  "chain_from s [] = True"
| "chain_from s (r # rs) = (from r = s \<and> from r < to r \<and> chain_from (to r) rs)"

text \<open>
  An instant is the start of a month when it is day 1 at 00:00:00.000 UTC, and the start of
  a year when moreover the month is January.
\<close>

definition is_month_start :: "int \<Rightarrow> bool" where
  "is_month_start t = (DateFromTime t = 1 \<and> t mod msPerDay = 0)"

definition is_year_start :: "int \<Rightarrow> bool" where
  "is_year_start t = (MonthFromTime t = 0 \<and> DateFromTime t = 1 \<and> t mod msPerDay = 0)"

text \<open>
  The answers that the client gives to the yearly queries, asked one after the other from
  the state \<open>s\<close>.
\<close>

fun graphql_answers ::
  "'s graphql_client \<Rightarrow> string \<Rightarrow> date_range list \<Rightarrow> 's \<Rightarrow> (error + int) list" where
  "graphql_answers octokit username [] s = []"
| "graphql_answers octokit username (date # rest) s =
     (case octokit (username, from date, to date) s of
        (answer, s') \<Rightarrow> answer # graphql_answers octokit username rest s')"


text \<open>
  The text from which a scan comes: a placeholder stands for its key between the braces.
\<close>

fun unscan :: "segment list \<Rightarrow> jsstring" where
  "unscan [] = []"
| "unscan (Text c # rest) = c # unscan rest"
| "unscan (Placeholder key # rest) = js ''{{'' @ key @ js ''}}'' @ unscan rest"

section \<open>Mocked clients\<close>

text \<open>
  A mocked call that gives prepared answers in their order: the state is the list of the
  answers still to give.
\<close>

definition replay :: "('q, 'a, (error + 'a) list) remote" where
  "replay q s = (case s of [] \<Rightarrow> (Inl NetworkError, []) | answer # rest \<Rightarrow> (answer, rest))"

text \<open>
  The mocked REST clients count the requests that reach them: the state is that number.
  A search counts one request for each page.
\<close>

text \<open>
  Every month holds the two commits \<open>a\<close> and \<open>b\<close>, on one page, with the statistics +10/-2
  and +3/-1.
\<close>

definition mock_two_commits :: "nat rest_client" where
  "mock_two_commits =
     \<lparr>search_commits = (\<lambda>q n. (Inr [[''a'', ''b'']], n + 1)),
      request = (\<lambda>u n. (if u = ''a'' then Inr (10, 2)
                         else if u = ''b'' then Inr (3, 1)
                         else Inl (RequestError 404), n + 1)),
      getReadme = (\<lambda>r n. (Inr ''sha-1'', n + 1)),
      createOrUpdateFileContents = (\<lambda>u n. (Inr (), n + 1))\<rparr>"




text \<open>
  The remote document changes right after its version marker is read: the first read
  answers \<open>sha-old\<close>, every later one \<open>sha-new\<close>, and a write is accepted with the marker
  \<open>sha-new\<close> only; with any other it is rejected with status 409.
\<close>

definition mock_stale_readme :: "nat rest_client" where
  "mock_stale_readme =
     \<lparr>search_commits = (\<lambda>q n. (Inr [], n + 1)),
      request = (\<lambda>u n. (Inl (RequestError 404), n + 1)),
      getReadme = (\<lambda>r n. (Inr (if n = 0 then ''sha-old'' else ''sha-new''), n + 1)),
      createOrUpdateFileContents =
        (\<lambda>u n. (if sha u = ''sha-new'' then Inr () else Inl (RequestError 409), n + 1))\<rparr>"

text \<open>A client without credentials: every call is rejected with status 401.\<close>

definition mock_unauthorized :: "nat rest_client" where
  "mock_unauthorized =
     \<lparr>search_commits = (\<lambda>q n. (Inl (RequestError 401), n + 1)),
      request = (\<lambda>u n. (Inl (RequestError 401), n + 1)),
      getReadme = (\<lambda>r n. (Inl (RequestError 401), n + 1)),
      createOrUpdateFileContents = (\<lambda>u n. (Inl (RequestError 401), n + 1))\<rparr>"

text \<open>
  The search succeeds; the third request, and no other, hits the rate limit (status 403).
\<close>

definition mock_rate_limited :: "nat rest_client" where
  "mock_rate_limited =
     \<lparr>search_commits = (\<lambda>q n. (Inr [[''a'', ''b'', ''c'']], n + 1)),
      request = (\<lambda>u n. (if n = 2 then Inl (RequestError 403) else Inr (1, 1), n + 1)),
      getReadme = (\<lambda>r n. (Inr ''sha-1'', n + 1)),
      createOrUpdateFileContents = (\<lambda>u n. (Inr (), n + 1))\<rparr>"

section \<open>Facts about calculateDateRanges\<close>

lemma month_loop_acc:
  fixes dummy :: "date_range list"
  shows "month_loop now cur acc =
     (case month_loop now cur [] of Inl e \<Rightarrow> Inl e | Inr rs \<Rightarrow> Inr (acc @ rs))"
proof (induction now cur dummy arbitrary: acc rule: month_loop.induct)
  case (1 now ranges)
  show ?case by simp
next
  case (2 now c ranges)
  show ?case
  proof (cases "isBefore (Some c) (Some now)")
    case False
    thus ?thesis by simp
  next
    case True
    define nxt where "nxt = Date_UTC (Some (getUTCFullYear c)) (Some (getUTCMonth c + 1)) 1"
    show ?thesis
    proof (cases "toISOString nxt")
      case (Inl e)
      thus ?thesis using True by (simp add: nxt_def)
    next
      case (Inr n)
      have a: "month_loop now nxt (acc @ [\<lparr>from = c, to = n\<rparr>]) =
          (case month_loop now nxt [] of Inl e \<Rightarrow> Inl e
           | Inr rs \<Rightarrow> Inr ((acc @ [\<lparr>from = c, to = n\<rparr>]) @ rs))"
        using "2.IH"[OF True nxt_def Inr] .
      have b: "month_loop now nxt ([] @ [\<lparr>from = c, to = n\<rparr>]) =
          (case month_loop now nxt [] of Inl e \<Rightarrow> Inl e
           | Inr rs \<Rightarrow> Inr (([] @ [\<lparr>from = c, to = n\<rparr>]) @ rs))"
        using "2.IH"[OF True nxt_def Inr] .
      show ?thesis
        using True Inr a b by (simp add: nxt_def[symmetric] split: sum.splits)
    qed
  qed
qed

declare month_loop.simps [simp del] year_loop.simps [simp del]

lemma year_loop_acc:
  fixes dummy :: "date_range list"
  shows "year_loop now cur acc =
     (case year_loop now cur [] of Inl e \<Rightarrow> Inl e | Inr rs \<Rightarrow> Inr (acc @ rs))"
proof (induction now cur dummy arbitrary: acc rule: year_loop.induct)
  case (1 now ranges)
  show ?case by (simp add: year_loop.simps)
next
  case (2 now c ranges)
  show ?case
  proof (cases "isBefore (Some c) (Some now)")
    case False
    thus ?thesis by (simp add: year_loop.simps)
  next
    case True
    define nxt where "nxt = Date_UTC (Some (getUTCFullYear c + 1)) (Some 0) 1"
    show ?thesis
    proof (cases "toISOString nxt")
      case (Inl e)
      thus ?thesis using True by (simp add: nxt_def year_loop.simps)
    next
      case (Inr n)
      have a: "year_loop now nxt (acc @ [\<lparr>from = c, to = n\<rparr>]) =
          (case year_loop now nxt [] of Inl e \<Rightarrow> Inl e
           | Inr rs \<Rightarrow> Inr ((acc @ [\<lparr>from = c, to = n\<rparr>]) @ rs))"
        using "2.IH"[OF True nxt_def Inr] .
      have b: "year_loop now nxt ([] @ [\<lparr>from = c, to = n\<rparr>]) =
          (case year_loop now nxt [] of Inl e \<Rightarrow> Inl e
           | Inr rs \<Rightarrow> Inr (([] @ [\<lparr>from = c, to = n\<rparr>]) @ rs))"
        using "2.IH"[OF True nxt_def Inr] .
      show ?thesis
        using True Inr a b
        by (simp add: year_loop.simps(2)[of now c] nxt_def[symmetric] split: sum.splits)
    qed
  qed
qed

text \<open>
  Both loops, started on an empty array, unfold in the same way; the facts below are proved
  once, for any loop that unfolds so.
\<close>

lemma month_loop_unfold:
  "month_loop now (Some c) [] =
     (if c < now then
        (case next_month c of
           None \<Rightarrow> Inl RangeError
         | Some n \<Rightarrow>
             (case month_loop now (Some n) [] of
                Inl e \<Rightarrow> Inl e
              | Inr rs \<Rightarrow> Inr (\<lparr>from = c, to = n\<rparr> # rs)))
      else Inr [])"
proof (cases "next_month c")
  case None
  thus ?thesis
    unfolding month_loop.simps(2)[of now c "[]"]
    by (simp add: isBefore_def toISOString_def next_month_def[symmetric])
next
  case (Some n)
  have step: "month_loop now (Some c) [] =
      (if c < now then month_loop now (Some n) [\<lparr>from = c, to = n\<rparr>] else Inr [])"
    unfolding month_loop.simps(2)[of now c "[]"]
    using Some by (simp add: isBefore_def toISOString_def next_month_def[symmetric])
  have acc: "month_loop now (Some n) [\<lparr>from = c, to = n\<rparr>] =
      (case month_loop now (Some n) [] of
         Inl e \<Rightarrow> Inl e
       | Inr rs \<Rightarrow> Inr ([\<lparr>from = c, to = n\<rparr>] @ rs))"
    by (rule month_loop_acc)
  show ?thesis unfolding step acc using Some by (simp split: sum.splits)
qed

lemma year_loop_unfold:
  "year_loop now (Some c) [] =
     (if c < now then
        (case next_year c of
           None \<Rightarrow> Inl RangeError
         | Some n \<Rightarrow>
             (case year_loop now (Some n) [] of
                Inl e \<Rightarrow> Inl e
              | Inr rs \<Rightarrow> Inr (\<lparr>from = c, to = n\<rparr> # rs)))
      else Inr [])"
proof (cases "next_year c")
  case None
  thus ?thesis
    unfolding year_loop.simps(2)[of now c "[]"]
    by (simp add: isBefore_def toISOString_def next_year_def[symmetric])
next
  case (Some n)
  have step: "year_loop now (Some c) [] =
      (if c < now then year_loop now (Some n) [\<lparr>from = c, to = n\<rparr>] else Inr [])"
    unfolding year_loop.simps(2)[of now c "[]"]
    using Some by (simp add: isBefore_def toISOString_def next_year_def[symmetric])
  have acc: "year_loop now (Some n) [\<lparr>from = c, to = n\<rparr>] =
      (case year_loop now (Some n) [] of
         Inl e \<Rightarrow> Inl e
       | Inr rs \<Rightarrow> Inr ([\<lparr>from = c, to = n\<rparr>] @ rs))"
    by (rule year_loop_acc)
  show ?thesis unfolding step acc using Some by (simp split: sum.splits)
qed

lemma loop_chain:
  fixes loop :: "Date \<Rightarrow> error + date_range list" and nxt :: "int \<Rightarrow> Date"
  assumes unfold: "\<And>c. loop (Some c) =
     (if c < now then
        (case nxt c of
           None \<Rightarrow> Inl RangeError
         | Some n \<Rightarrow>
             (case loop (Some n) of Inl e \<Rightarrow> Inl e | Inr rs \<Rightarrow> Inr (\<lparr>from = c, to = n\<rparr> # rs)))
      else Inr [])"
    and later: "\<And>c n. nxt c = Some n \<Longrightarrow> c < n"
  shows "loop (Some s) = Inr rs \<Longrightarrow>
     chain_from s rs \<and> (\<forall>r\<in>set rs. from r < now) \<and>
     (if s < now then rs \<noteq> [] \<and> now \<le> to (last rs) else rs = [])"
proof (induction rs arbitrary: s)
  case Nil
  thus ?case using unfold[of s] by (auto split: if_splits option.splits sum.splits)
next
  case (Cons r rs)
  from Cons.prems unfold[of s] obtain n where
    s: "s < now" and n: "nxt s = Some n" and l: "loop (Some n) = Inr rs"
    and r: "r = \<lparr>from = s, to = n\<rparr>"
    by (auto split: if_splits option.splits sum.splits)
  note ih = Cons.IH[OF l]
  have "s < n" using later[OF n] .
  thus ?case using ih s r by (auto split: if_splits)
qed

lemma loop_no_error:
  fixes loop :: "Date \<Rightarrow> error + date_range list" and nxt :: "int \<Rightarrow> Date"
  assumes unfold: "\<And>c. loop (Some c) =
     (if c < now then
        (case nxt c of
           None \<Rightarrow> Inl RangeError
         | Some n \<Rightarrow>
             (case loop (Some n) of Inl e \<Rightarrow> Inl e | Inr rs \<Rightarrow> Inr (\<lparr>from = c, to = n\<rparr> # rs)))
      else Inr [])"
    and later: "\<And>c n. nxt c = Some n \<Longrightarrow> c < n"
    and valid: "\<And>c. c < now \<Longrightarrow> - maxTime \<le> c \<Longrightarrow> \<exists>n. nxt c = Some n"
  shows "- maxTime \<le> s \<Longrightarrow> \<exists>rs. loop (Some s) = Inr rs"
proof (induction "nat (now - s)" arbitrary: s rule: less_induct)
  case less
  show ?case
  proof (cases "s < now")
    case False
    thus ?thesis using unfold[of s] by simp
  next
    case True
    from valid[OF True less.prems] obtain n where n: "nxt s = Some n" ..
    have sn: "s < n" using later[OF n] .
    hence "nat (now - n) < nat (now - s)" using True by simp
    moreover have "- maxTime \<le> n" using sn less.prems by simp
    ultimately obtain rs where "loop (Some n) = Inr rs" using less.hyps by blast
    thus ?thesis using unfold[of s] True n by simp
  qed
qed

lemma loop_boundaries:
  fixes loop :: "Date \<Rightarrow> error + date_range list" and nxt :: "int \<Rightarrow> Date"
  assumes unfold: "\<And>c. loop (Some c) =
     (if c < now then
        (case nxt c of
           None \<Rightarrow> Inl RangeError
         | Some n \<Rightarrow>
             (case loop (Some n) of Inl e \<Rightarrow> Inl e | Inr rs \<Rightarrow> Inr (\<lparr>from = c, to = n\<rparr> # rs)))
      else Inr [])"
    and step: "\<And>c n. nxt c = Some n \<Longrightarrow> B n"
  shows "loop (Some s) = Inr rs \<Longrightarrow> B s \<Longrightarrow> \<forall>r\<in>set rs. B (from r) \<and> B (to r)"
proof (induction rs arbitrary: s)
  case Nil
  show ?case by simp
next
  case (Cons r rs)
  from Cons.prems(1) unfold[of s] obtain n where
    n: "nxt s = Some n" and l: "loop (Some n) = Inr rs" and r: "r = \<lparr>from = s, to = n\<rparr>"
    by (auto split: if_splits option.splits sum.splits)
  have "B n" using step[OF n] .
  thus ?case using Cons.IH[OF l] Cons.prems(2) r by simp
qed

subsection \<open>What a chain of ranges is\<close>

lemma chain_from_lower: "chain_from s rs \<Longrightarrow> \<forall>r\<in>set rs. s \<le> from r \<and> s < to r"
proof (induction rs arbitrary: s)
  case Nil
  show ?case by simp
next
  case (Cons r rs)
  hence "\<forall>x\<in>set rs. to r \<le> from x \<and> to r < to x" by simp
  thus ?case using Cons.prems by fastforce
qed

lemma chain_from_hd: "chain_from s rs \<Longrightarrow> rs \<noteq> [] \<Longrightarrow> from (hd rs) = s"
  by (cases rs) simp_all

lemma chain_from_proper: "chain_from s rs \<Longrightarrow> \<forall>r\<in>set rs. from r < to r"
  by (induction rs arbitrary: s) auto

lemma chain_from_meet:
  "chain_from s rs \<Longrightarrow> \<forall>i. Suc i < length rs \<longrightarrow> to (rs ! i) = from (rs ! Suc i)"
proof (induction rs arbitrary: s)
  case Nil
  show ?case by simp
next
  case (Cons r rs)
  show ?case
  proof (intro allI impI)
    fix i assume i: "Suc i < length (r # rs)"
    show "to ((r # rs) ! i) = from ((r # rs) ! Suc i)"
    proof (cases i)
      case 0
      thus ?thesis using Cons.prems i chain_from_hd[of "to r" rs] by (cases rs) simp_all
    next
      case (Suc j)
      thus ?thesis using Cons.IH[of "to r"] Cons.prems i by simp
    qed
  qed
qed

lemma chain_from_disjoint: "chain_from s rs \<Longrightarrow> sorted_wrt (\<lambda>a b. to a \<le> from b) rs"
proof (induction rs arbitrary: s)
  case Nil
  show ?case by simp
next
  case (Cons r rs)
  thus ?case using chain_from_lower[of "to r" rs] by fastforce
qed

lemma chain_from_increasing: "chain_from s rs \<Longrightarrow> sorted_wrt (\<lambda>a b. from a < from b) rs"
proof (induction rs arbitrary: s)
  case Nil
  show ?case by simp
next
  case (Cons r rs)
  thus ?case using chain_from_lower[of "to r" rs] by fastforce
qed

lemma chain_from_cover:
  "chain_from s rs \<Longrightarrow> rs \<noteq> [] \<Longrightarrow> (\<Union>r\<in>set rs. {from r ..< to r}) = {s ..< to (last rs)}"
proof (induction rs arbitrary: s)
  case Nil
  thus ?case by simp
next
  case (Cons r rs)
  show ?case
  proof (cases "rs = []")
    case True
    thus ?thesis using Cons.prems by simp
  next
    case False
    have ih: "(\<Union>x\<in>set rs. {from x ..< to x}) = {to r ..< to (last rs)}"
      using Cons.IH[of "to r"] Cons.prems False by simp
    have "to r < to (last rs)"
      using chain_from_lower[of "to r" rs] Cons.prems False by simp
    hence "{from r ..< to r} \<union> {to r ..< to (last rs)} = {s ..< to (last rs)}"
      using Cons.prems by auto
    thus ?thesis using ih False by simp
  qed
qed

subsection \<open>No date of the loops is invalid\<close>

lemma MakeDay_upper: "MakeDay y m 1 \<le> DayFromYear (y + m div 12 + 1)"
proof -
  define ym where "ym = y + m div 12"
  define l where "l = (if DaysInYear ym = 366 then 1 else 0::int)"
  have "MonthStart l (m mod 12) \<le> 334 + l"
    using MonthStart_range[of l "m mod 12"] unfolding l_def by simp
  moreover have "334 + l \<le> DaysInYear ym"
    using DaysInYear_range[of ym] unfolding l_def by simp
  moreover have "MakeDay y m 1 = DayFromYear ym + MonthStart l (m mod 12)"
    unfolding MakeDay_def Let_def ym_def l_def by simp
  ultimately show ?thesis using DayFromYear_step[of ym] unfolding ym_def by simp
qed

lemma MakeDate_mono: "d \<le> e \<Longrightarrow> MakeDate d 0 \<le> MakeDate e 0"
  unfolding MakeDate_def msPerDay_def by simp

lemma MakeDate_Day_le: "MakeDate (Day t) 0 \<le> t"
  unfolding MakeDate_def Day_def using div_lower[of msPerDay t]
  by (simp add: msPerDay_def mult.commute)

lemma DayFromYear_2001: "DayFromYear 2001 = 11323"
  unfolding DayFromYear_def by simp

lemma TimeClip_valid: "- maxTime \<le> t \<Longrightarrow> t \<le> maxTime \<Longrightarrow> TimeClip t = Some t"
  unfolding TimeClip_def by simp

lemma next_month_valid:
  assumes c: "c < now" and clock: "now \<le> maxTime - 366 * msPerDay" and lo: "- maxTime \<le> c"
  shows "\<exists>n. next_month c = Some n"
proof -
  define Y M where "Y = YearFromTime c" and "M = MonthFromTime c"
  define v where "v = MakeDate (MakeDay (MakeFullYear Y) (M + 1) 1) 0"
  have nm: "next_month c = TimeClip v"
    unfolding next_month_def Date_UTC_def getUTCFullYear_def getUTCMonth_def v_def Y_def M_def
    by simp
  have "Day c < MakeDay Y (M + 1) 1"
    unfolding Y_def M_def using MakeDay_next_month[of c] by simp
  also have "\<dots> \<le> MakeDay (MakeFullYear Y) (M + 1) 1"
    by (rule MakeDay_year_mono) (rule MakeFullYear_ge)
  finally have "c < v" unfolding v_def by (rule time_less_next_day)
  hence low: "- maxTime \<le> v" using lo by simp
  have up: "v \<le> maxTime"
  proof (cases "0 \<le> Y \<and> Y \<le> 99")
    case False
    hence "MakeFullYear Y = Y" unfolding MakeFullYear_def by simp
    hence "v \<le> MakeDate (Day c + 31) 0"
      unfolding v_def Y_def M_def using MakeDay_next_month[of c] by (intro MakeDate_mono) simp
    also have "\<dots> = MakeDate (Day c) 0 + 31 * msPerDay"
      unfolding MakeDate_def by (simp add: algebra_simps)
    also have "\<dots> \<le> c + 31 * msPerDay" using MakeDate_Day_le[of c] by simp
    finally show ?thesis using c clock by (simp add: msPerDay_def)
  next
    case True
    have m: "0 \<le> M" "M \<le> 11" unfolding M_def using MonthFromTime_range[of c] by simp_all
    hence "(M + 1) div 12 \<le> 1"
      by (cases "M = 11") simp_all
    moreover have "MakeFullYear Y \<le> 1999" using True unfolding MakeFullYear_def by simp
    ultimately have "MakeFullYear Y + (M + 1) div 12 + 1 \<le> 2001" by simp
    hence "DayFromYear (MakeFullYear Y + (M + 1) div 12 + 1) \<le> DayFromYear 2001"
      by (rule DayFromYear_mono)
    hence "MakeDay (MakeFullYear Y) (M + 1) 1 \<le> 11323"
      using MakeDay_upper[of "MakeFullYear Y" "M + 1"] DayFromYear_2001 by simp
    hence "v \<le> MakeDate 11323 0" unfolding v_def by (rule MakeDate_mono)
    thus ?thesis unfolding MakeDate_def msPerDay_def maxTime_def by simp
  qed
  show ?thesis unfolding nm using TimeClip_valid[OF low up] by simp
qed

lemma next_year_valid:
  assumes c: "c < now" and clock: "now \<le> maxTime - 366 * msPerDay" and lo: "- maxTime \<le> c"
  shows "\<exists>n. next_year c = Some n"
proof -
  define Y where "Y = YearFromTime c"
  define v where "v = MakeDate (DayFromYear (MakeFullYear (Y + 1))) 0"
  have ny: "next_year c = TimeClip v"
    by (simp add: next_year_def Date_UTC_def getUTCFullYear_def v_def Y_def MakeDay_Jan)
  have "Day c < DayFromYear (Y + 1)"
    unfolding Y_def using YearFromTime_bounds[of c] by simp
  also have "\<dots> \<le> DayFromYear (MakeFullYear (Y + 1))"
    by (rule DayFromYear_mono) (rule MakeFullYear_ge)
  finally have "c < v" unfolding v_def by (rule time_less_next_day)
  hence low: "- maxTime \<le> v" using lo by simp
  have up: "v \<le> maxTime"
  proof (cases "0 \<le> Y + 1 \<and> Y + 1 \<le> 99")
    case False
    hence "MakeFullYear (Y + 1) = Y + 1" unfolding MakeFullYear_def by simp
    moreover have "DayFromYear (Y + 1) \<le> Day c + 366"
      using DayFromYear_step[of Y] DaysInYear_range[of Y] YearFromTime_bounds[of c]
      unfolding Y_def by simp
    ultimately have "v \<le> MakeDate (Day c + 366) 0"
      unfolding v_def by (intro MakeDate_mono) simp
    also have "\<dots> = MakeDate (Day c) 0 + 366 * msPerDay"
      unfolding MakeDate_def by (simp add: algebra_simps)
    also have "\<dots> \<le> c + 366 * msPerDay" using MakeDate_Day_le[of c] by simp
    finally show ?thesis using c clock by simp
  next
    case True
    hence "MakeFullYear (Y + 1) \<le> 2001" unfolding MakeFullYear_def by simp
    hence "DayFromYear (MakeFullYear (Y + 1)) \<le> DayFromYear 2001"
      by (rule DayFromYear_mono)
    hence "v \<le> MakeDate 11323 0"
      unfolding v_def using DayFromYear_2001 by (intro MakeDate_mono) simp
    thus ?thesis unfolding MakeDate_def msPerDay_def maxTime_def by simp
  qed
  show ?thesis unfolding ny using TimeClip_valid[OF low up] by simp
qed

lemma next_month_later': "next_month c = Some n \<Longrightarrow> c < n"
  unfolding next_month_def by (rule next_month_later)

lemma next_year_later': "next_year c = Some n \<Longrightarrow> c < n"
  unfolding next_year_def by (rule next_year_later)

lemma calculateDateRanges_eq:
  "calculateDateRanges now chunk fromYear fromMonth =
     (if chunk = ''month'' then month_loop now (Date_UTC fromYear fromMonth 1) []
      else if chunk = ''year'' then year_loop now (Date_UTC fromYear (Some 0) 1) []
      else Inr [])"
  unfolding calculateDateRanges_def by (simp split: sum.splits)

lemma calculateDateRanges_first:
  "calculateDateRanges now chunk fromYear fromMonth =
     (case first_instant chunk fromYear fromMonth of
        None \<Rightarrow> Inr []
      | Some s \<Rightarrow> if chunk = ''month'' then month_loop now (Some s) [] else year_loop now (Some s) [])"
  unfolding calculateDateRanges_eq first_instant_def
  by (simp add: month_loop.simps year_loop.simps split: option.splits)

lemma calculateDateRanges_chain:
  assumes "first_instant chunk fromYear fromMonth = Some s"
    and "calculateDateRanges now chunk fromYear fromMonth = Inr rs"
  shows "chain_from s rs \<and> (\<forall>r\<in>set rs. from r < now) \<and>
     (if s < now then rs \<noteq> [] \<and> now \<le> to (last rs) else rs = [])"
proof (cases "chunk = ''month''")
  case True
  hence "month_loop now (Some s) [] = Inr rs"
    using assms by (simp add: calculateDateRanges_first)
  thus ?thesis
    using loop_chain[where loop = "\<lambda>d. month_loop now d []" and nxt = next_month and now = now
        and s = s and rs = rs, OF month_loop_unfold next_month_later']
    by simp
next
  case False
  hence "year_loop now (Some s) [] = Inr rs"
    using assms by (simp add: calculateDateRanges_first)
  thus ?thesis
    using loop_chain[where loop = "\<lambda>d. year_loop now d []" and nxt = next_year and now = now
        and s = s and rs = rs, OF year_loop_unfold next_year_later']
    by simp
qed

lemma first_instant_valid: "first_instant chunk y m = Some s \<Longrightarrow> - maxTime \<le> s \<and> s \<le> maxTime"
  unfolding first_instant_def Date_UTC_def
  by (auto split: if_splits option.splits dest!: TimeClip_Some)

lemma calculateDateRanges_no_error:
  assumes clock: "now \<le> maxTime - 366 * msPerDay"
  shows "\<exists>rs. calculateDateRanges now chunk fromYear fromMonth = Inr rs"
proof (cases "first_instant chunk fromYear fromMonth")
  case None
  thus ?thesis by (simp add: calculateDateRanges_first)
next
  case (Some s)
  hence lo: "- maxTime \<le> s" using first_instant_valid by blast
  show ?thesis
  proof (cases "chunk = ''month''")
    case True
    have "\<exists>rs. month_loop now (Some s) [] = Inr rs"
      using lo loop_no_error[where loop = "\<lambda>d. month_loop now d []" and nxt = next_month
          and now = now and s = s, OF month_loop_unfold next_month_later' next_month_valid[OF _ clock]]
      by simp
    thus ?thesis using True Some by (simp add: calculateDateRanges_first)
  next
    case False
    have "\<exists>rs. year_loop now (Some s) [] = Inr rs"
      using lo loop_no_error[where loop = "\<lambda>d. year_loop now d []" and nxt = next_year
          and now = now and s = s, OF year_loop_unfold next_year_later' next_year_valid[OF _ clock]]
      by simp
    thus ?thesis using False Some by (simp add: calculateDateRanges_first)
  qed
qed

lemma Date_UTC_not_before:
  "Date_UTC (Some y) (Some m) 1 = Some s \<Longrightarrow> MakeDate (MakeDay y m 1) 0 \<le> s"
  unfolding Date_UTC_def
  using MakeDate_mono[OF MakeDay_year_mono[OF MakeFullYear_ge[of y], of m 1]]
  by (auto dest!: TimeClip_Some)

subsection \<open>Calendar fields of the range boundaries\<close>

lemma Day_MakeDate: "Day (MakeDate d 0) = d"
  unfolding Day_def MakeDate_def msPerDay_def by simp

lemma month_cases:
  "(0::int) \<le> mn \<Longrightarrow> mn < 12 \<Longrightarrow>
   mn = 0 \<or> mn = 1 \<or> mn = 2 \<or> mn = 3 \<or> mn = 4 \<or> mn = 5 \<or> mn = 6 \<or> mn = 7 \<or>
   mn = 8 \<or> mn = 9 \<or> mn = 10 \<or> mn = 11"
  by presburger

text \<open>
  The instant that \<open>MakeDay\<close> and \<open>MakeDate\<close> build for the first of a month reads back as
  that year, that month, day 1, at midnight.
\<close>

lemma MakeDay_fields:
  fixes y m :: int
  defines "t \<equiv> MakeDate (MakeDay y m 1) 0"
  shows "YearFromTime t = y + m div 12 \<and> MonthFromTime t = m mod 12 \<and>
         DateFromTime t = 1 \<and> t mod msPerDay = 0"
proof -
  define ym where "ym = y + m div 12"
  define mn where "mn = m mod 12"
  define l where "l = (if DaysInYear ym = 366 then 1 else 0::int)"
  define d0 where "d0 = MonthStart l mn"
  have l01: "0 \<le> l" "l \<le> 1" unfolding l_def by simp_all
  have diy: "DaysInYear ym = 365 + l"
    unfolding l_def using DaysInYear_range[of ym] by (simp add: DaysInYear_def)
  have mn: "0 \<le> mn" "mn < 12" unfolding mn_def by simp_all
  have d0: "0 \<le> d0" "d0 \<le> 334 + l" unfolding d0_def using MonthStart_range[OF l01(1)] by simp_all
  have md: "MakeDay y m 1 = DayFromYear ym + d0"
    unfolding MakeDay_def Let_def ym_def mn_def l_def d0_def by simp
  have day: "Day t = DayFromYear ym + d0" unfolding t_def md by (rule Day_MakeDate)
  have yr: "YearFromTime t = ym"
    by (rule YearFromTime_unique) (use day d0 l01 diy DayFromYear_step[of ym] in simp_all)
  have leap: "InLeapYear t = l" unfolding InLeapYear_def yr l_def ..
  have dwy: "DayWithinYear t = d0" unfolding DayWithinYear_def yr day by simp
  have mon: "MonthFromTime t = mn"
    unfolding MonthFromTime_def Let_def dwy leap d0_def
    using month_cases[OF mn] l01 by (auto simp: MonthStart_def)
  have dat: "DateFromTime t = 1" unfolding DateFromTime_def dwy leap mon d0_def by simp
  have "t mod msPerDay = 0" unfolding t_def MakeDate_def by simp
  thus ?thesis using yr mon dat unfolding ym_def mn_def by simp
qed

lemma Date_UTC_month_start: "Date_UTC y m 1 = Some n \<Longrightarrow> is_month_start n"
  unfolding Date_UTC_def is_month_start_def
  using MakeDay_fields by (auto split: option.splits dest!: TimeClip_Some)

lemma Date_UTC_year_start: "Date_UTC y (Some 0) 1 = Some n \<Longrightarrow> is_year_start n"
  unfolding Date_UTC_def is_year_start_def
  using MakeDay_fields[of _ 0] by (auto split: option.splits dest!: TimeClip_Some)

lemma is_year_start_month: "is_year_start t \<Longrightarrow> is_month_start t"
  unfolding is_year_start_def is_month_start_def by simp

lemma calculateDateRanges_boundaries:
  assumes "calculateDateRanges now chunk fromYear fromMonth = Inr rs"
  shows "\<forall>r\<in>set rs. is_month_start (from r) \<and> is_month_start (to r) \<and>
     (chunk = ''year'' \<longrightarrow> is_year_start (from r) \<and> is_year_start (to r))"
proof (cases "first_instant chunk fromYear fromMonth")
  case None
  thus ?thesis using assms by (simp add: calculateDateRanges_first)
next
  case (Some s)
  show ?thesis
  proof (cases "chunk = ''month''")
    case True
    hence l: "month_loop now (Some s) [] = Inr rs"
      using assms Some by (simp add: calculateDateRanges_first)
    have s: "is_month_start s"
      using Some True Date_UTC_month_start unfolding first_instant_def by simp
    have "\<forall>r\<in>set rs. is_month_start (from r) \<and> is_month_start (to r)"
      using loop_boundaries[where loop = "\<lambda>d. month_loop now d []" and nxt = next_month
          and now = now and s = s and rs = rs and B = is_month_start, OF month_loop_unfold]
        l s Date_UTC_month_start
      unfolding next_month_def by simp
    thus ?thesis using True by simp
  next
    case False
    hence l: "year_loop now (Some s) [] = Inr rs"
      using assms Some by (simp add: calculateDateRanges_first)
    have s: "is_year_start s"
      using Some False Date_UTC_year_start unfolding first_instant_def
      by (simp split: if_splits)
    have "\<forall>r\<in>set rs. is_year_start (from r) \<and> is_year_start (to r)"
      using loop_boundaries[where loop = "\<lambda>d. year_loop now d []" and nxt = next_year
          and now = now and s = s and rs = rs and B = is_year_start, OF year_loop_unfold]
        l s Date_UTC_year_start
      unfolding next_year_def by simp
    thus ?thesis using is_year_start_month by blast
  qed
qed

text \<open>Each range of a loop ends at the instant that the loop computes from its start.\<close>

lemma loop_steps:
  fixes loop :: "Date \<Rightarrow> error + date_range list" and nxt :: "int \<Rightarrow> Date"
  assumes unfold: "\<And>c. loop (Some c) =
     (if c < now then
        (case nxt c of
           None \<Rightarrow> Inl RangeError
         | Some n \<Rightarrow>
             (case loop (Some n) of Inl e \<Rightarrow> Inl e | Inr rs \<Rightarrow> Inr (\<lparr>from = c, to = n\<rparr> # rs)))
      else Inr [])"
  shows "loop (Some s) = Inr rs \<Longrightarrow> \<forall>r\<in>set rs. nxt (from r) = Some (to r)"
proof (induction rs arbitrary: s)
  case Nil
  show ?case by simp
next
  case (Cons r rs)
  from Cons.prems unfold[of s] obtain n where
    n: "nxt s = Some n" and l: "loop (Some n) = Inr rs" and r: "r = \<lparr>from = s, to = n\<rparr>"
    by (auto split: if_splits option.splits sum.splits)
  show ?case using Cons.IH[OF l] n r by simp
qed

lemma calculateDateRanges_steps:
  assumes "calculateDateRanges now chunk fromYear fromMonth = Inr rs"
  shows "(chunk = ''month'' \<longrightarrow> (\<forall>r\<in>set rs. next_month (from r) = Some (to r))) \<and>
         (chunk = ''year'' \<longrightarrow> (\<forall>r\<in>set rs. next_year (from r) = Some (to r)))"
proof (cases "first_instant chunk fromYear fromMonth")
  case None
  thus ?thesis using assms by (simp add: calculateDateRanges_first)
next
  case (Some s)
  show ?thesis
  proof (intro conjI impI)
    assume c: "chunk = ''month''"
    hence "month_loop now (Some s) [] = Inr rs"
      using assms Some by (simp add: calculateDateRanges_first)
    thus "\<forall>r\<in>set rs. next_month (from r) = Some (to r)"
      using loop_steps[where loop = "\<lambda>d. month_loop now d []" and nxt = next_month
          and now = now and s = s and rs = rs, OF month_loop_unfold]
      by simp
  next
    assume c: "chunk = ''year''"
    hence "year_loop now (Some s) [] = Inr rs"
      using assms Some by (simp add: calculateDateRanges_first)
    thus "\<forall>r\<in>set rs. next_year (from r) = Some (to r)"
      using loop_steps[where loop = "\<lambda>d. year_loop now d []" and nxt = next_year
          and now = now and s = s and rs = rs, OF year_loop_unfold]
      by simp
  qed
qed

section \<open>Facts about the aggregators\<close>

lemma excess_bits_small: "n < 9007199254740992 \<Longrightarrow> excess_bits n = 0"
  by simp

lemma to_double_safe: "\<bar>x\<bar> < 9007199254740992 \<Longrightarrow> to_double x = Finite x"
proof -
  assume a: "\<bar>x\<bar> < 9007199254740992"
  have r: "round_to_double x = x"
    unfolding round_to_double_def Let_def excess_bits_small[OF a] by simp
  have "(9007199254740992::int) \<le> 2 ^ 1024" by simp
  hence "x < 2 ^ 1024" "- (2 ^ 1024) < x" using a by linarith+
  thus ?thesis unfolding to_double_def Let_def r by simp
qed

text \<open>For evaluation: a safe integer needs no rounding.\<close>

lemma to_double_code [code]:
  "to_double x =
     (if \<bar>x\<bar> < 9007199254740992 then Finite x
      else (let r = round_to_double x
            in if 2 ^ 1024 \<le> r then Infinity
               else if r \<le> - (2 ^ 1024) then MinusInfinity
               else Finite r))"
  using to_double_safe[of x] by (simp add: to_double_def)

lemma js_add_safe:
  "\<bar>a + b\<bar> < 9007199254740992 \<Longrightarrow> js_add (Finite a) (Finite b) = Finite (a + b)"
  unfolding js_add_def by (simp add: to_double_safe)

lemma fetchContributions_loop_sum:
  "graphql_answers octokit username rs s = map Inr totals \<Longrightarrow>
   \<forall>t\<in>set totals. \<bar>t\<bar> < 9007199254740992 \<Longrightarrow>
   \<forall>k\<le>length totals. \<bar>c + sum_list (take k totals)\<bar> < 9007199254740992 \<Longrightarrow>
   fst (fetchContributions_loop octokit username rs
          \<lparr>contributions = Finite c, fetchContributionsAPICallCount = n\<rparr> s) =
     Inr \<lparr>contributions = Finite (c + sum_list totals),
          fetchContributionsAPICallCount = n + int (length rs)\<rparr>"
proof (induction rs arbitrary: totals c n s)
  case Nil
  thus ?case by simp
next
  case (Cons r rs)
  obtain a s' where q: "octokit (username, from r, to r) s = (a, s')" by (cases "octokit (username, from r, to r) s")
  from Cons.prems(1) q obtain t ts where ts: "totals = t # ts" and a: "a = Inr t"
    and tl: "graphql_answers octokit username rs s' = map Inr ts"
    by (cases totals) auto
  have t: "\<bar>t\<bar> < 9007199254740992" using Cons.prems(2) ts by simp
  have "\<bar>c + sum_list (take 1 totals)\<bar> < 9007199254740992"
    using Cons.prems(3) ts by (metis One_nat_def Suc_leI length_Cons zero_less_Suc)
  hence ct: "\<bar>c + t\<bar> < 9007199254740992" using ts by simp
  have rest: "\<forall>k\<le>length ts. \<bar>(c + t) + sum_list (take k ts)\<bar> < 9007199254740992"
  proof (intro allI impI)
    fix k assume "k \<le> length ts"
    hence "Suc k \<le> length totals" using ts by simp
    hence "\<bar>c + sum_list (take (Suc k) totals)\<bar> < 9007199254740992" using Cons.prems(3) by blast
    thus "\<bar>(c + t) + sum_list (take k ts)\<bar> < 9007199254740992" using ts by (simp add: add.assoc)
  qed
  have ts': "\<forall>t\<in>set ts. \<bar>t\<bar> < 9007199254740992" using Cons.prems(2) ts by simp
  show ?case
    using Cons.IH[OF tl ts' rest, of "n + 1"] q a ts
    by (simp add: to_double_safe[OF t] js_add_safe[OF ct] add.assoc)
qed

lemma fetchContributions_loop_count:
  "graphql_answers octokit username rs s = map Inr totals \<Longrightarrow>
   \<exists>res. fst (fetchContributions_loop octokit username rs acc s) = Inr res \<and>
     fetchContributionsAPICallCount res = fetchContributionsAPICallCount acc + int (length rs)"
proof (induction rs arbitrary: totals acc s)
  case Nil
  show ?case by simp
next
  case (Cons r rs)
  obtain a s' where q: "octokit (username, from r, to r) s = (a, s')"
    by (cases "octokit (username, from r, to r) s")
  from Cons.prems q obtain t ts where a: "a = Inr t"
    and tl: "graphql_answers octokit username rs s' = map Inr ts"
    by (cases totals) auto
  from Cons.IH[OF tl, of "acc\<lparr>contributions := js_add (contributions acc) (to_double t),
      fetchContributionsAPICallCount := fetchContributionsAPICallCount acc + 1\<rparr>"]
  show ?case using q a by auto
qed

lemma fetchContributions_loop_append:
  "fetchContributions_loop octokit username (pre @ rest) acc s =
     (case fetchContributions_loop octokit username pre acc s of
        (Inl e, s') \<Rightarrow> (Inl e, s')
      | (Inr acc', s') \<Rightarrow> fetchContributions_loop octokit username rest acc' s')"
  by (induction pre arbitrary: acc s) (auto split: prod.splits sum.splits)

lemma fetchLinesOfCode_commits_append:
  "fetchLinesOfCode_commits octokit (cs @ rest) acc s =
     (case fetchLinesOfCode_commits octokit cs acc s of
        (Inl e, s') \<Rightarrow> (Inl e, s')
      | (Inr acc', s') \<Rightarrow> fetchLinesOfCode_commits octokit rest acc' s')"
  by (induction cs arbitrary: acc s) (auto split: prod.splits sum.splits)

lemma fetchLinesOfCode_loop_append:
  "fetchLinesOfCode_loop octokit username (pre @ rest) acc s =
     (case fetchLinesOfCode_loop octokit username pre acc s of
        (Inl e, s') \<Rightarrow> (Inl e, s')
      | (Inr acc', s') \<Rightarrow> fetchLinesOfCode_loop octokit username rest acc' s')"
  by (induction pre arbitrary: acc s) (auto split: prod.splits sum.splits)




section \<open>Facts about the renderer\<close>

lemma js_simps [simp]:
  "js [] = []" "js (s @ t) = js s @ js t" "length (js s) = length s"
  by (simp_all add: js_def)

lemma braces: "js ''{{'' = [0x7B, 0x7B]" "js ''}}'' = [0x7D, 0x7D]"
  by (simp_all add: js_def)

lemma match_key_sound:
  "match_key s = Some (key, rest) \<Longrightarrow> s = key @ js ''}}'' @ rest"
proof (induction s arbitrary: key)
  case Nil
  thus ?case by simp
next
  case (Cons c cs)
  show ?case
  proof (cases "c = 0x7D \<and> cs \<noteq> [] \<and> hd cs = 0x7D")
    case True
    hence "key = []" "rest = tl cs" using Cons.prems by simp_all
    moreover have "cs = 0x7D # tl cs" using True by (cases cs) simp_all
    ultimately show ?thesis using True by (simp add: braces)
  next
    case False
    with Cons.prems obtain k where m: "match_key cs = Some (k, rest)" and key: "key = c # k"
      by (auto split: if_splits option.splits)
    from Cons.IH[OF m] show ?thesis using key by simp
  qed
qed

text \<open>
  A key that the pattern captures holds no line terminator, and the closing braces of the
  match are the first ones after the opening braces.
\<close>

lemma match_key_lazy:
  "match_key s = Some (key, rest) \<Longrightarrow>
   (\<forall>c\<in>set key. \<not> is_line_terminator c) \<and>
   (\<forall>i. Suc i < length key + 1 \<longrightarrow> \<not> (s ! i = 0x7D \<and> s ! Suc i = 0x7D))"
proof (induction s arbitrary: key)
  case Nil
  thus ?case by simp
next
  case (Cons c cs)
  show ?case
  proof (cases "c = 0x7D \<and> cs \<noteq> [] \<and> hd cs = 0x7D")
    case True
    hence "key = []" using Cons.prems by simp
    thus ?thesis by simp
  next
    case False
    with Cons.prems obtain k where lt: "\<not> is_line_terminator c"
      and m: "match_key cs = Some (k, rest)" and key: "key = c # k"
      by (auto split: if_splits option.splits)
    from Cons.IH[OF m] have ih1: "\<forall>c\<in>set k. \<not> is_line_terminator c"
      and ih2: "\<forall>i. Suc i < length k + 1 \<longrightarrow> \<not> (cs ! i = 0x7D \<and> cs ! Suc i = 0x7D)"
      by simp_all
    have ne: "cs \<noteq> []" using m by auto
    have first: "\<not> (c = 0x7D \<and> cs ! 0 = 0x7D)" using False ne by (simp add: hd_conv_nth)
    have "\<not> ((c # cs) ! i = 0x7D \<and> (c # cs) ! Suc i = 0x7D)"
      if "Suc i < length key + 1" for i
    proof (cases i)
      case 0
      thus ?thesis using first by simp
    next
      case (Suc j)
      hence "Suc j < length k + 1" using that key by simp
      thus ?thesis using ih2 Suc by simp
    qed
    thus ?thesis using ih1 lt key by simp
  qed
qed

text \<open>The scan loses nothing of the text.\<close>

lemma unscan_scan: "unscan (scan t) = t"
proof (induction t rule: scan.induct)
  case 1
  show ?case by simp
next
  case (2 c cs)
  show ?case
  proof (cases "c = 0x7B \<and> cs \<noteq> [] \<and> hd cs = 0x7B")
    case False
    thus ?thesis using 2(3) by auto
  next
    case True
    hence cs: "cs = 0x7B # tl cs" by (cases cs) simp_all
    show ?thesis
    proof (cases "match_key (tl cs)")
      case None
      thus ?thesis using True 2(1)[OF True None] by simp
    next
      case (Some kr)
      obtain key rest where kr: "kr = (key, rest)" by (cases kr)
      have "tl cs = key @ js ''}}'' @ rest" using match_key_sound Some kr by simp
      moreover have "unscan (scan rest) = rest" using 2(2)[OF True Some kr[symmetric]] .
      ultimately have "unscan (scan (c # cs)) = c # 0x7B # tl cs"
        using True Some kr by (simp add: braces)
      thus ?thesis using cs by simp
    qed
  qed
qed

lemma substitute_append:
  "substitute f (a @ b) =
     (case substitute f a of
        Inl e \<Rightarrow> Inl e
      | Inr x \<Rightarrow> (case substitute f b of Inl e \<Rightarrow> Inl e | Inr y \<Rightarrow> Inr (x @ y)))"
proof (induction a)
  case Nil
  show ?case by (simp split: sum.splits)
next
  case (Cons s a)
  thus ?case by (cases s) (simp_all split: sum.splits)
qed

lemma substitute_Text: "substitute f (map Text s) = Inr s"
  by (induction s) simp_all

lemma substitute_total:
  "(\<And>key. \<exists>r. f key = Inr r) \<Longrightarrow> \<exists>out. substitute f segs = Inr out"
proof (induction segs)
  case Nil
  show ?case by simp
next
  case (Cons s segs)
  then obtain out where o: "substitute f segs = Inr out" by blast
  show ?case
  proof (cases s)
    case (Text c)
    thus ?thesis using o by simp
  next
    case (Placeholder key)
    obtain r where "f key = Inr r" using Cons.prems by blast
    thus ?thesis using o Placeholder by simp
  qed
qed

text \<open>The callback never throws, and this is what it returns.\<close>

lemma dots: "concat (replicate n (js ''.'')) = js (replicate n CHR ''.'')"
  by (induction n) (simp_all add: js_def)

lemma replacer_value:
  "replacer stats key =
     Inr (js (replicate
            (case stats (trim key) of
               Other None text \<Rightarrow> 0
             | Other (Some l) text \<Rightarrow> nat (max 0 (64 - 5 - int (length key) - int l))
             | String s \<Rightarrow> nat (max 0 (64 - 5 - int (length key) - int (length s)))
             | _ \<Rightarrow> nat (max 0 (64 - 5 - int (length key) - 3))) CHR ''.'') @
          js '' '' @
          ToString (nullish_coalescing (stats (trim key)) (String (js ''N/A''))))"
  unfolding replacer_def Let_def
  by (auto simp: nullish_coalescing_def length_of_def repeat_def Math_max_def minus_number_def
      dots split: jsvalue.splits option.splits)


lemma length_trim: "length (trim s) \<le> length s"
proof -
  define w where "w = (\<lambda>c. is_white_space c \<or> is_line_terminator c)"
  have "length (trim s) \<le> length (dropWhile w s)"
    unfolding trim_def w_def[symmetric]
    using length_dropWhile_le[of w "rev (dropWhile w s)"]
    by simp
  also have "\<dots> \<le> length s" by (rule length_dropWhile_le)
  finally show ?thesis .
qed


text \<open>What the renderer writes at a match, and around it.\<close>

lemma render_match:
  assumes "scan template = pre @ Placeholder key # post"
  shows "\<exists>out_pre out_post.
     substitute (replacer stats) pre = Inr out_pre \<and>
     substitute (replacer stats) post = Inr out_post \<and>
     generatePopulatedTemplate template stats =
       Inr (out_pre @
            js (replicate
              (case stats (trim key) of
                 Other None text \<Rightarrow> 0
               | Other (Some l) text \<Rightarrow> nat (max 0 (64 - 5 - int (length key) - int l))
               | String s \<Rightarrow> nat (max 0 (64 - 5 - int (length key) - int (length s)))
               | _ \<Rightarrow> nat (max 0 (64 - 5 - int (length key) - 3))) CHR ''.'') @
            js '' '' @
            ToString (nullish_coalescing (stats (trim key)) (String (js ''N/A''))) @
            out_post)"
proof -
  have total: "\<And>k. \<exists>r. replacer stats k = Inr r" using replacer_value by blast
  obtain a where a: "substitute (replacer stats) pre = Inr a"
    using substitute_total[of "replacer stats" pre] total by blast
  obtain b where b: "substitute (replacer stats) post = Inr b"
    using substitute_total[of "replacer stats" post] total by blast
  show ?thesis
    unfolding generatePopulatedTemplate_def replace_def assms substitute_append
    using a b by (simp add: replacer_value)
qed

section \<open>Claims about calculateDateRanges\<close>

text \<open>
  Claim C1, as amended.  For a start instant that is not after \<open>now\<close>, the ranges returned
  begin at the start instant (the first range's \<open>from\<close> is the start), each range ends where
  the next begins, no two ranges overlap and none is empty, and together they cover exactly
  the half-open interval from the start to the end of the last range.  Each range ends at
  the instant that \<open>Date.UTC\<close> gives for the first day of the month after the month of its
  start; for \<open>year\<close>, for the first of January of the year after the year of its start.
  Every range begins before \<open>now\<close>, and the last one ends at or after \<open>now\<close>.  When the
  start is \<open>now\<close> itself, no range is returned.  The clock is assumed to be more than 366
  days before the largest time value of a \<open>Date\<close>.
\<close>

theorem chunker_covers_start_to_boundary:
  assumes start: "first_instant chunk fromYear fromMonth = Some start"
    and past: "start \<le> now"
    and clock: "now \<le> maxTime - 366 * msPerDay"
  shows "\<exists>rs. calculateDateRanges now chunk fromYear fromMonth = Inr rs \<and>
     (start = now \<longrightarrow> rs = []) \<and>
     (start < now \<longrightarrow>
        rs \<noteq> [] \<and> from (hd rs) = start \<and> from (last rs) < now \<and> now \<le> to (last rs) \<and>
        (\<Union>r\<in>set rs. {from r ..< to r}) = {start ..< to (last rs)}) \<and>
     (\<forall>i. Suc i < length rs \<longrightarrow> to (rs ! i) = from (rs ! Suc i)) \<and>
     sorted_wrt (\<lambda>a b. to a \<le> from b) rs \<and>
     (\<forall>r\<in>set rs. from r < to r \<and> from r < now) \<and>
     (chunk = ''month'' \<longrightarrow> (\<forall>r\<in>set rs. next_month (from r) = Some (to r))) \<and>
     (chunk = ''year'' \<longrightarrow> (\<forall>r\<in>set rs. next_year (from r) = Some (to r)))"
proof -
  from calculateDateRanges_no_error[OF clock] obtain rs where
    rs: "calculateDateRanges now chunk fromYear fromMonth = Inr rs" ..
  note c = calculateDateRanges_chain[OF start rs]
  hence chain: "chain_from start rs" and before: "\<forall>r\<in>set rs. from r < now" by simp_all
  have a: "start = now \<longrightarrow> rs = []" using c by simp
  have b: "start < now \<longrightarrow>
        rs \<noteq> [] \<and> from (hd rs) = start \<and> from (last rs) < now \<and> now \<le> to (last rs) \<and>
        (\<Union>r\<in>set rs. {from r ..< to r}) = {start ..< to (last rs)}"
  proof
    assume "start < now"
    hence ne: "rs \<noteq> []" and l: "now \<le> to (last rs)" using c by simp_all
    have "from (last rs) < now" using before ne by simp
    thus "rs \<noteq> [] \<and> from (hd rs) = start \<and> from (last rs) < now \<and> now \<le> to (last rs) \<and>
        (\<Union>r\<in>set rs. {from r ..< to r}) = {start ..< to (last rs)}"
      using ne l chain_from_hd[OF chain ne] chain_from_cover[OF chain ne] by simp
  qed
  have p: "\<forall>r\<in>set rs. from r < to r \<and> from r < now"
    using chain_from_proper[OF chain] before by simp
  show ?thesis
    using rs a b chain_from_meet[OF chain] chain_from_disjoint[OF chain] p
      calculateDateRanges_steps[OF rs]
    by blast
qed

text \<open>
  The theorem at 2024-01-15T12:00Z, for months from November 2023 and for years from 2022.
\<close>

theorem chunker_covers_start_to_boundary_witness:
  "(\<exists>rs. calculateDateRanges 1705320000000 ''month'' (Some 2023) (Some 10) = Inr rs \<and>
     rs \<noteq> [] \<and> from (hd rs) = 1698796800000 \<and>
     from (last rs) < 1705320000000 \<and> 1705320000000 \<le> to (last rs) \<and>
     (\<Union>r\<in>set rs. {from r ..< to r}) = {1698796800000 ..< to (last rs)} \<and>
     (\<forall>i. Suc i < length rs \<longrightarrow> to (rs ! i) = from (rs ! Suc i)) \<and>
     sorted_wrt (\<lambda>a b. to a \<le> from b) rs \<and>
     (\<forall>r\<in>set rs. from r < to r \<and> from r < 1705320000000) \<and>
     (\<forall>r\<in>set rs. next_month (from r) = Some (to r))) \<and>
   (\<exists>rs. calculateDateRanges 1705320000000 ''year'' (Some 2022) (Some 5) = Inr rs \<and>
     rs \<noteq> [] \<and> from (hd rs) = 1640995200000 \<and>
     from (last rs) < 1705320000000 \<and> 1705320000000 \<le> to (last rs) \<and>
     (\<Union>r\<in>set rs. {from r ..< to r}) = {1640995200000 ..< to (last rs)} \<and>
     (\<forall>i. Suc i < length rs \<longrightarrow> to (rs ! i) = from (rs ! Suc i)) \<and>
     sorted_wrt (\<lambda>a b. to a \<le> from b) rs \<and>
     (\<forall>r\<in>set rs. from r < to r \<and> from r < 1705320000000) \<and>
     (\<forall>r\<in>set rs. next_year (from r) = Some (to r)))"
proof -
  have start: "first_instant ''month'' (Some 2023) (Some 10) = Some 1698796800000"
    by code_simp
  have past: "(1698796800000::int) \<le> 1705320000000" by simp
  have clock: "(1705320000000::int) \<le> maxTime - 366 * msPerDay"
    by (simp add: maxTime_def msPerDay_def)
  have start': "first_instant ''year'' (Some 2022) (Some 5) = Some 1640995200000"
    by code_simp
  have past': "(1640995200000::int) \<le> 1705320000000" by simp
  have m: "\<exists>rs. calculateDateRanges 1705320000000 ''month'' (Some 2023) (Some 10) = Inr rs \<and>
     rs \<noteq> [] \<and> from (hd rs) = 1698796800000 \<and>
     from (last rs) < 1705320000000 \<and> 1705320000000 \<le> to (last rs) \<and>
     (\<Union>r\<in>set rs. {from r ..< to r}) = {1698796800000 ..< to (last rs)} \<and>
     (\<forall>i. Suc i < length rs \<longrightarrow> to (rs ! i) = from (rs ! Suc i)) \<and>
     sorted_wrt (\<lambda>a b. to a \<le> from b) rs \<and>
     (\<forall>r\<in>set rs. from r < to r \<and> from r < 1705320000000) \<and>
     (\<forall>r\<in>set rs. next_month (from r) = Some (to r))"
    using chunker_covers_start_to_boundary[OF start past clock] by simp
  have y: "\<exists>rs. calculateDateRanges 1705320000000 ''year'' (Some 2022) (Some 5) = Inr rs \<and>
     rs \<noteq> [] \<and> from (hd rs) = 1640995200000 \<and>
     from (last rs) < 1705320000000 \<and> 1705320000000 \<le> to (last rs) \<and>
     (\<Union>r\<in>set rs. {from r ..< to r}) = {1640995200000 ..< to (last rs)} \<and>
     (\<forall>i. Suc i < length rs \<longrightarrow> to (rs ! i) = from (rs ! Suc i)) \<and>
     sorted_wrt (\<lambda>a b. to a \<le> from b) rs \<and>
     (\<forall>r\<in>set rs. from r < to r \<and> from r < 1705320000000) \<and>
     (\<forall>r\<in>set rs. next_year (from r) = Some (to r))"
    using chunker_covers_start_to_boundary[OF start' past' clock] by simp
  show ?thesis using m y by (rule conjI)
qed

text \<open>
  Claim C1 as stated asks that the last range does not end later than \<open>now\<close>.  At
  2024-01-15T12:00Z, for months from January 2024, the only range ends on 2024-02-01.
\<close>

theorem chunker_last_range_passes_now:
  "first_instant ''month'' (Some 2024) (Some 0) = Some 1704067200000 \<and>
   (1704067200000::int) \<le> 1705320000000 \<and>
   calculateDateRanges 1705320000000 ''month'' (Some 2024) (Some 0) =
     Inr [\<lparr>from = 1704067200000, to = 1706745600000\<rparr>] \<and>
   \<not> to (last [\<lparr>from = 1704067200000, to = 1706745600000\<rparr>]) \<le> (1705320000000::int)"
  by code_simp

text \<open>
  Claim C5, as amended.  Take a start year outside 0 to 99, and let \<open>start\<close> be the instant
  of day 1, 00:00:00 UTC, of the start month of the start year (of January, for \<open>year\<close>,
  whatever the start month is), a valid date that is not in the future.  Then the ranges are
  contiguous (each range's \<open>to\<close> is the next range's \<open>from\<close>) and strictly increasing, the
  first range's \<open>from\<close> is \<open>start\<close>, and every boundary is the first of a month; for
  \<open>year\<close> every boundary is a first of January, and \<open>start\<close> is the first of January of
  the start year.  The clock is assumed to be more than 366 days before the largest time
  value of a \<open>Date\<close>.
\<close>

theorem chunker_ranges_contiguous_increasing:
  fixes fromYear fromMonth :: int
  assumes chunk: "chunk = ''month'' \<or> chunk = ''year''"
    and year: "fromYear < 0 \<or> 99 < fromYear"
    and start: "start = MakeDate (MakeDay fromYear (if chunk = ''year'' then 0 else fromMonth) 1) 0"
    and valid: "- maxTime \<le> start"
    and past: "start \<le> now"
    and clock: "now \<le> maxTime - 366 * msPerDay"
  shows "\<exists>rs. calculateDateRanges now chunk (Some fromYear) (Some fromMonth) = Inr rs \<and>
     (\<forall>i. Suc i < length rs \<longrightarrow> to (rs ! i) = from (rs ! Suc i)) \<and>
     sorted_wrt (\<lambda>a b. from a < from b) rs \<and>
     (start < now \<longrightarrow> rs \<noteq> [] \<and> from (hd rs) = start) \<and>
     (\<forall>r\<in>set rs. is_month_start (from r) \<and> is_month_start (to r)) \<and>
     (chunk = ''month'' \<longrightarrow>
        getUTCFullYear start = fromYear + fromMonth div 12 \<and>
        getUTCMonth start = fromMonth mod 12 \<and> is_month_start start) \<and>
     (chunk = ''year'' \<longrightarrow>
        start = TimeFromYear fromYear \<and> getUTCFullYear start = fromYear \<and>
        is_year_start start \<and>
        (\<forall>r\<in>set rs. is_year_start (from r) \<and> is_year_start (to r)))"
proof -
  have mfy: "MakeFullYear fromYear = fromYear" using year unfolding MakeFullYear_def by auto
  have up: "start \<le> maxTime" using past clock by (simp add: msPerDay_def)
  have fi: "first_instant chunk (Some fromYear) (Some fromMonth) = Some start"
  proof (cases "chunk = ''year''")
    case True
    thus ?thesis
      using TimeClip_valid[OF valid up] by (simp add: first_instant_def Date_UTC_def mfy start)
  next
    case False
    hence "chunk = ''month''" using chunk by simp
    thus ?thesis
      using TimeClip_valid[OF valid up] by (simp add: first_instant_def Date_UTC_def mfy start)
  qed
  from calculateDateRanges_no_error[OF clock] obtain rs where
    rs: "calculateDateRanges now chunk (Some fromYear) (Some fromMonth) = Inr rs" ..
  note c = calculateDateRanges_chain[OF fi rs]
  hence chain: "chain_from start rs" by simp
  have hd: "start < now \<longrightarrow> rs \<noteq> [] \<and> from (hd rs) = start"
    using c chain_from_hd[OF chain] by simp
  note b = calculateDateRanges_boundaries[OF rs]
  have m: "chunk = ''month'' \<longrightarrow>
        getUTCFullYear start = fromYear + fromMonth div 12 \<and>
        getUTCMonth start = fromMonth mod 12 \<and> is_month_start start"
    using MakeDay_fields[of fromYear fromMonth]
    unfolding start getUTCFullYear_def getUTCMonth_def is_month_start_def by simp
  have y: "chunk = ''year'' \<longrightarrow>
        start = TimeFromYear fromYear \<and> getUTCFullYear start = fromYear \<and>
        is_year_start start"
    using MakeDay_fields[of fromYear 0]
    by (simp add: start getUTCFullYear_def is_year_start_def TimeFromYear_def MakeDay_Jan
        MakeDate_def)
  show ?thesis
    using rs chain_from_meet[OF chain] chain_from_increasing[OF chain] hd b m y by blast
qed

text \<open>
  The theorem at 2024-01-15T12:00Z: years from 2022 (start month June, ignored), and months
  from November 2023.
\<close>

theorem chunker_ranges_contiguous_increasing_witness:
  "(\<exists>rs. calculateDateRanges 1705320000000 ''year'' (Some 2022) (Some 5) = Inr rs \<and>
     (\<forall>i. Suc i < length rs \<longrightarrow> to (rs ! i) = from (rs ! Suc i)) \<and>
     sorted_wrt (\<lambda>a b. from a < from b) rs \<and>
     rs \<noteq> [] \<and> from (hd rs) = 1640995200000 \<and>
     TimeFromYear 2022 = 1640995200000 \<and>
     (\<forall>r\<in>set rs. is_year_start (from r) \<and> is_year_start (to r))) \<and>
   (\<exists>rs. calculateDateRanges 1705320000000 ''month'' (Some 2023) (Some 10) = Inr rs \<and>
     (\<forall>i. Suc i < length rs \<longrightarrow> to (rs ! i) = from (rs ! Suc i)) \<and>
     sorted_wrt (\<lambda>a b. from a < from b) rs \<and>
     rs \<noteq> [] \<and> from (hd rs) = 1698796800000 \<and>
     getUTCFullYear 1698796800000 = 2023 \<and> getUTCMonth 1698796800000 = 10 \<and>
     (\<forall>r\<in>set rs. is_month_start (from r) \<and> is_month_start (to r)))"
proof -
  have clock: "(1705320000000::int) \<le> maxTime - 366 * msPerDay"
    by (simp add: maxTime_def msPerDay_def)
  have y: "(1640995200000::int) = MakeDate (MakeDay 2022 (if ''year'' = ''year'' then 0 else 5) 1) 0"
    by code_simp
  have m: "(1698796800000::int) = MakeDate (MakeDay 2023 (if ''month'' = ''year'' then 0 else 10) 1) 0"
    by code_simp
  have d: "(2023::int) + 10 div 12 = 2023" "(10::int) mod 12 = 10" by simp_all
  note a = chunker_ranges_contiguous_increasing[of "''year''" 2022 1640995200000 5 1705320000000,
      OF _ _ y _ _ clock]
  note b = chunker_ranges_contiguous_increasing[of "''month''" 2023 1698796800000 10 1705320000000,
      OF _ _ m _ _ clock]
  have a': "\<exists>rs. calculateDateRanges 1705320000000 ''year'' (Some 2022) (Some 5) = Inr rs \<and>
     (\<forall>i. Suc i < length rs \<longrightarrow> to (rs ! i) = from (rs ! Suc i)) \<and>
     sorted_wrt (\<lambda>a b. from a < from b) rs \<and>
     rs \<noteq> [] \<and> from (hd rs) = 1640995200000 \<and>
     TimeFromYear 2022 = 1640995200000 \<and>
     (\<forall>r\<in>set rs. is_year_start (from r) \<and> is_year_start (to r))"
    using a by (auto simp: maxTime_def)
  have b': "\<exists>rs. calculateDateRanges 1705320000000 ''month'' (Some 2023) (Some 10) = Inr rs \<and>
     (\<forall>i. Suc i < length rs \<longrightarrow> to (rs ! i) = from (rs ! Suc i)) \<and>
     sorted_wrt (\<lambda>a b. from a < from b) rs \<and>
     rs \<noteq> [] \<and> from (hd rs) = 1698796800000 \<and>
     getUTCFullYear 1698796800000 = 2023 \<and> getUTCMonth 1698796800000 = 10 \<and>
     (\<forall>r\<in>set rs. is_month_start (from r) \<and> is_month_start (to r))"
    using b d by (auto simp: maxTime_def)
  show ?thesis using a' b' by (rule conjI)
qed

text \<open>
  Claim C5 as stated covers every start year.  \<open>Date.UTC\<close> reads the year 99 as 1999: on
  2000-06-01, for years from 99, the first range begins on 1999-01-01, and not on the first
  of January of the year 99.
\<close>

theorem chunker_year_99_starts_in_1999:
  "MakeDate (MakeDay 99 0 1) 0 = - 59042995200000 \<and>
   (- 59042995200000::int) \<le> 959817600000 \<and>
   calculateDateRanges 959817600000 ''year'' (Some 99) (Some 0) =
     Inr [\<lparr>from = 915148800000, to = 946684800000\<rparr>,
          \<lparr>from = 946684800000, to = 978307200000\<rparr>] \<and>
   from (hd [\<lparr>from = 915148800000, to = 946684800000\<rparr>,
             \<lparr>from = 946684800000, to = 978307200000\<rparr>]) \<noteq> MakeDate (MakeDay 99 0 1) 0 \<and>
   getUTCFullYear 915148800000 = 1999"
  by code_simp

text \<open>
  Claim C9.  When the start instant is strictly after \<open>now\<close>, the result is the empty
  sequence, for \<open>month\<close> and for \<open>year\<close>: the start instant that \<open>Date.UTC\<close> builds, and
  as well the first of the start month of the start year as the calendar has it (of
  January, for \<open>year\<close>).  The result is empty too when the start is no valid date.  No
  input raises an error: the call returns a sequence for every \<open>chunk\<close>, \<open>fromYear\<close> and
  \<open>fromMonth\<close>, the clock being more than 366 days before the largest time value.
\<close>

theorem future_start_gives_no_ranges:
  "(\<forall>s. first_instant chunk fromYear fromMonth = Some s \<and> now < s \<longrightarrow>
      calculateDateRanges now chunk fromYear fromMonth = Inr []) \<and>
   (first_instant chunk fromYear fromMonth = None \<longrightarrow>
      calculateDateRanges now chunk fromYear fromMonth = Inr []) \<and>
   (\<forall>y m. fromYear = Some y \<and> fromMonth = Some m \<and>
      now < MakeDate (MakeDay y (if chunk = ''year'' then 0 else m) 1) 0 \<longrightarrow>
      calculateDateRanges now chunk fromYear fromMonth = Inr []) \<and>
   (now \<le> maxTime - 366 * msPerDay \<longrightarrow>
      (\<exists>rs. calculateDateRanges now chunk fromYear fromMonth = Inr rs))"
proof (intro conjI allI impI)
  fix s assume "first_instant chunk fromYear fromMonth = Some s \<and> now < s"
  thus "calculateDateRanges now chunk fromYear fromMonth = Inr []"
    by (simp add: calculateDateRanges_first month_loop.simps year_loop.simps isBefore_def)
next
  assume "first_instant chunk fromYear fromMonth = None"
  thus "calculateDateRanges now chunk fromYear fromMonth = Inr []"
    by (simp add: calculateDateRanges_first)
next
  fix y m
  assume a: "fromYear = Some y \<and> fromMonth = Some m \<and>
      now < MakeDate (MakeDay y (if chunk = ''year'' then 0 else m) 1) 0"
  show "calculateDateRanges now chunk fromYear fromMonth = Inr []"
  proof (cases "first_instant chunk fromYear fromMonth")
    case None
    thus ?thesis by (simp add: calculateDateRanges_first)
  next
    case (Some s)
    hence "MakeDate (MakeDay y (if chunk = ''year'' then 0 else m) 1) 0 \<le> s"
      using a Date_UTC_not_before unfolding first_instant_def
      by (auto split: if_splits)
    hence "now < s" using a by simp
    thus ?thesis using Some
      by (simp add: calculateDateRanges_first month_loop.simps year_loop.simps isBefore_def)
  qed
next
  assume "now \<le> maxTime - 366 * msPerDay"
  thus "\<exists>rs. calculateDateRanges now chunk fromYear fromMonth = Inr rs"
    by (rule calculateDateRanges_no_error)
qed

text \<open>
  The theorem at 2024-01-15T12:00Z: years from 2030, months from the year 300000 (no valid
  date), months from February 2024, and months from November 2023.
\<close>

theorem future_start_gives_no_ranges_witness:
  "first_instant ''year'' (Some 2030) (Some 5) = Some 1893456000000 \<and>
   (1705320000000::int) < 1893456000000 \<and>
   calculateDateRanges 1705320000000 ''year'' (Some 2030) (Some 5) = Inr [] \<and>
   first_instant ''month'' (Some 300000) (Some 0) = None \<and>
   calculateDateRanges 1705320000000 ''month'' (Some 300000) (Some 0) = Inr [] \<and>
   (1705320000000::int) < MakeDate (MakeDay 2024 1 1) 0 \<and>
   calculateDateRanges 1705320000000 ''month'' (Some 2024) (Some 1) = Inr [] \<and>
   (1705320000000::int) \<le> maxTime - 366 * msPerDay \<and>
   (\<exists>rs. calculateDateRanges 1705320000000 ''month'' (Some 2023) (Some 10) = Inr rs)"
proof -
  have s: "first_instant ''year'' (Some 2030) (Some 5) = Some 1893456000000" by code_simp
  have n: "first_instant ''month'' (Some 300000) (Some 0) = None" by code_simp
  have f: "(1705320000000::int) < MakeDate (MakeDay 2024 1 1) 0" by code_simp
  have clock: "(1705320000000::int) \<le> maxTime - 366 * msPerDay"
    by (simp add: maxTime_def msPerDay_def)
  show ?thesis
    using s n f clock
      future_start_gives_no_ranges[of "''year''" "Some 2030" "Some 5" 1705320000000]
      future_start_gives_no_ranges[of "''month''" "Some 300000" "Some 0" 1705320000000]
      future_start_gives_no_ranges[of "''month''" "Some 2024" "Some 1" 1705320000000]
      future_start_gives_no_ranges[of "''month''" "Some 2023" "Some 10" 1705320000000]
    by simp
qed

section \<open>Claims about the aggregators and the publisher\<close>




text \<open>
  Claim C3, as amended.  Over two monthly ranges, each answered by one page of two commits
  with the statistics +10/-2 and +3/-1, the aggregator returns additions 26 and deletions
  6: it adds the statistics of all four commits.  The six calls are made in this order,
  each in the state that the one before has left.
\<close>

theorem lines_two_months_of_two_commits:
  assumes ranges: "calculateDateRanges now ''month'' (getFullYear tza startDate)
                     (getMonth tza startDate) = Inr [m1, m2]"
    and page1: "search_commits octokit (username, from m1, to m1) s0 = (Inr [[a1, b1]], s1)"
    and stats1: "request octokit a1 s1 = (Inr (10, 2), s2)"
      "request octokit b1 s2 = (Inr (3, 1), s3)"
    and page2: "search_commits octokit (username, from m2, to m2) s3 = (Inr [[a2, b2]], s4)"
    and stats2: "request octokit a2 s4 = (Inr (10, 2), s5)"
      "request octokit b2 s5 = (Inr (3, 1), s6)"
  shows "fetchLinesOfCode now tza octokit username startDate s0 =
     (Inr \<lparr>additions = Finite 26, deletions = Finite 6, fetchLinesOfCodeAPICallCount = 6\<rparr>, s6)"
proof -
  have "to_double 10 = Finite 10" "to_double 2 = Finite 2" "to_double 3 = Finite 3"
    "to_double 1 = Finite 1"
    by (simp_all add: to_double_safe)
  moreover have "js_add (Finite 0) (Finite 10) = Finite 10" "js_add (Finite 10) (Finite 3) = Finite 13"
    "js_add (Finite 13) (Finite 10) = Finite 23" "js_add (Finite 23) (Finite 3) = Finite 26"
    "js_add (Finite 0) (Finite 2) = Finite 2" "js_add (Finite 2) (Finite 1) = Finite 3"
    "js_add (Finite 3) (Finite 2) = Finite 5" "js_add (Finite 5) (Finite 1) = Finite 6"
    by (simp_all add: js_add_safe)
  ultimately show ?thesis
    unfolding fetchLinesOfCode_def Let_def ranges
    by (simp add: paginate_def page1 page2 stats1 stats2)
qed

text \<open>The theorem for an account created on 2023-12-10, the clock at 2024-01-15T12:00Z.\<close>

theorem lines_two_months_of_two_commits_witness:
  "fetchLinesOfCode 1705320000000 (\<lambda>t. 0) mock_two_commits ''octocat'' (Some 1702166400000) 0 =
     (Inr \<lparr>additions = Finite 26, deletions = Finite 6, fetchLinesOfCodeAPICallCount = 6\<rparr>, 6)"
proof -
  have ranges: "calculateDateRanges 1705320000000 ''month''
      (getFullYear (\<lambda>t. 0) (Some 1702166400000)) (getMonth (\<lambda>t. 0) (Some 1702166400000)) =
     Inr [\<lparr>from = 1701388800000, to = 1704067200000\<rparr>,
          \<lparr>from = 1704067200000, to = 1706745600000\<rparr>]"
    by code_simp
  show ?thesis
    by (rule lines_two_months_of_two_commits[OF ranges, where octokit = mock_two_commits
          and ?a1.0 = "''a''" and ?b1.0 = "''b''" and ?a2.0 = "''a''" and ?b2.0 = "''b''"
          and ?s1.0 = 1 and ?s2.0 = 2 and ?s3.0 = 3 and ?s4.0 = 4 and ?s5.0 = 5])
       (simp_all add: mock_two_commits_def)
qed

text \<open>
  Claim C3 as stated gives additions 13 and deletions 3, the statistics of one month.  The
  mocked run over two months returns 26 and 6.
\<close>

theorem lines_two_months_not_13_and_3:
  "calculateDateRanges 1705320000000 ''month''
      (getFullYear (\<lambda>t. 0) (Some 1702166400000)) (getMonth (\<lambda>t. 0) (Some 1702166400000)) =
     Inr [\<lparr>from = 1701388800000, to = 1704067200000\<rparr>,
          \<lparr>from = 1704067200000, to = 1706745600000\<rparr>] \<and>
   paginate (search_commits mock_two_commits) (''octocat'', 1701388800000, 1704067200000) 0 =
     (Inr [''a'', ''b''], 1) \<and>
   request mock_two_commits ''a'' 1 = (Inr (10, 2), 2) \<and>
   request mock_two_commits ''b'' 2 = (Inr (3, 1), 3) \<and>
   paginate (search_commits mock_two_commits) (''octocat'', 1704067200000, 1706745600000) 3 =
     (Inr [''a'', ''b''], 4) \<and>
   request mock_two_commits ''a'' 4 = (Inr (10, 2), 5) \<and>
   request mock_two_commits ''b'' 5 = (Inr (3, 1), 6) \<and>
   fetchLinesOfCode 1705320000000 (\<lambda>t. 0) mock_two_commits ''octocat'' (Some 1702166400000) 0 =
     (Inr \<lparr>additions = Finite 26, deletions = Finite 6, fetchLinesOfCodeAPICallCount = 6\<rparr>, 6) \<and>
   additions \<lparr>additions = Finite 26, deletions = Finite 6, fetchLinesOfCodeAPICallCount = 6\<rparr> \<noteq> Finite 13 \<and>
   deletions \<lparr>additions = Finite 26, deletions = Finite 6, fetchLinesOfCodeAPICallCount = 6\<rparr> \<noteq> Finite 3"
  by code_simp

text \<open>
  Claim C6, as amended.  When the yearly queries are answered by the integers \<open>totals\<close>, one
  for each yearly range in order, the call count returned is the number of yearly ranges.
  The total returned is the sum of the answers when every answer and every sum of the
  first \<open>k\<close> answers is a safe integer, of absolute value below \<open>2^53\<close>: the sum of doubles
  is then exact.
\<close>

theorem contributions_total_and_call_count:
  assumes ranges: "calculateDateRanges now ''year'' (getFullYear tza creationDate) (Some 0) = Inr rs"
    and answers: "graphql_answers octokit username rs s = map Inr totals"
  shows "\<exists>res. fst (fetchContributions now tza octokit username creationDate s) = Inr res \<and>
     fetchContributionsAPICallCount res = int (length rs) \<and>
     ((\<forall>t\<in>set totals. \<bar>t\<bar> < 2 ^ 53) \<and>
      (\<forall>k\<le>length totals. \<bar>sum_list (take k totals)\<bar> < 2 ^ 53) \<longrightarrow>
      contributions res = Finite (sum_list totals))"
proof -
  have p: "(2::int) ^ 53 = 9007199254740992" by simp
  from fetchContributions_loop_count[OF answers,
      of "\<lparr>contributions = Finite 0, fetchContributionsAPICallCount = 0\<rparr>"]
  obtain res where
    res: "fst (fetchContributions_loop octokit username rs
          \<lparr>contributions = Finite 0, fetchContributionsAPICallCount = 0\<rparr> s) = Inr res"
    and n: "fetchContributionsAPICallCount res = int (length rs)"
    by auto
  have "contributions res = Finite (sum_list totals)"
    if safe: "\<forall>t\<in>set totals. \<bar>t\<bar> < 2 ^ 53"
      and sums: "\<forall>k\<le>length totals. \<bar>sum_list (take k totals)\<bar> < 2 ^ 53"
  proof -
    have "fst (fetchContributions_loop octokit username rs
          \<lparr>contributions = Finite 0, fetchContributionsAPICallCount = 0\<rparr> s) =
     Inr \<lparr>contributions = Finite (0 + sum_list totals),
          fetchContributionsAPICallCount = 0 + int (length rs)\<rparr>"
      using safe sums unfolding p
      by (intro fetchContributions_loop_sum[OF answers]) simp_all
    thus ?thesis using res by simp
  qed
  thus ?thesis using res n unfolding fetchContributions_def Let_def ranges by auto
qed

text \<open>
  The mocked yearly answers 3, 5 and 7 (an account created in April 2022, the clock at
  2024-01-15T12:00Z) give the total 15 and the call count 3.
\<close>

theorem contributions_total_and_call_count_witness:
  "calculateDateRanges 1705320000000 ''year'' (getFullYear (\<lambda>t. 0) (Some 1650000000000)) (Some 0) =
     Inr [\<lparr>from = 1640995200000, to = 1672531200000\<rparr>,
          \<lparr>from = 1672531200000, to = 1704067200000\<rparr>,
          \<lparr>from = 1704067200000, to = 1735689600000\<rparr>] \<and>
   (\<exists>res. fst (fetchContributions 1705320000000 (\<lambda>t. 0) replay ''octocat''
                 (Some 1650000000000) [Inr 3, Inr 5, Inr 7]) = Inr res \<and>
      contributions res = Finite 15 \<and> fetchContributionsAPICallCount res = 3)"
proof -
  have ranges:
    "calculateDateRanges 1705320000000 ''year'' (getFullYear (\<lambda>t. 0) (Some 1650000000000)) (Some 0) =
     Inr [\<lparr>from = 1640995200000, to = 1672531200000\<rparr>,
          \<lparr>from = 1672531200000, to = 1704067200000\<rparr>,
          \<lparr>from = 1704067200000, to = 1735689600000\<rparr>]"
    by code_simp
  have answers: "graphql_answers replay ''octocat''
      [\<lparr>from = 1640995200000, to = 1672531200000\<rparr>,
       \<lparr>from = 1672531200000, to = 1704067200000\<rparr>,
       \<lparr>from = 1704067200000, to = 1735689600000\<rparr>] [Inr 3, Inr 5, Inr 7] = map Inr [3, 5, 7]"
    by (simp add: replay_def)
  have safe: "\<forall>t\<in>set [3, 5, 7::int]. \<bar>t\<bar> < 2 ^ 53" by simp
  have sums: "\<forall>k\<le>length [3, 5, 7::int]. \<bar>sum_list (take k [3, 5, 7::int])\<bar> < 2 ^ 53"
  proof (intro allI impI)
    fix k :: nat assume "k \<le> length [3, 5, 7::int]"
    hence "k = 0 \<or> k = 1 \<or> k = 2 \<or> k = 3" by auto
    thus "\<bar>sum_list (take k [3, 5, 7::int])\<bar> < 2 ^ 53" by (auto simp: numeral_2_eq_2 numeral_3_eq_3)
  qed
  from contributions_total_and_call_count[OF ranges answers] obtain res where
    "fst (fetchContributions 1705320000000 (\<lambda>t. 0) replay ''octocat''
                 (Some 1650000000000) [Inr 3, Inr 5, Inr 7]) = Inr res"
    "fetchContributionsAPICallCount res = int (length
      [\<lparr>from = 1640995200000, to = 1672531200000\<rparr>,
       \<lparr>from = 1672531200000, to = 1704067200000\<rparr>,
       \<lparr>from = 1704067200000, to = 1735689600000\<rparr>])"
    "(\<forall>t\<in>set [3, 5, 7::int]. \<bar>t\<bar> < 2 ^ 53) \<and>
      (\<forall>k\<le>length [3, 5, 7::int]. \<bar>sum_list (take k [3, 5, 7::int])\<bar> < 2 ^ 53) \<longrightarrow>
      contributions res = Finite (sum_list [3, 5, 7])"
    by blast
  thus ?thesis using ranges safe sums by auto
qed

text \<open>
  Claim C6 as stated holds for every sequence of answers.  The yearly answers \<open>2^53\<close> and 1
  have the sum \<open>2^53 + 1\<close>, which no double holds; the aggregator returns \<open>2^53\<close>.
\<close>

theorem contributions_sum_is_rounded:
  "calculateDateRanges 1705320000000 ''year'' (getFullYear (\<lambda>t. 0) (Some 1680000000000)) (Some 0) =
     Inr [\<lparr>from = 1672531200000, to = 1704067200000\<rparr>,
          \<lparr>from = 1704067200000, to = 1735689600000\<rparr>] \<and>
   graphql_answers replay ''octocat''
     [\<lparr>from = 1672531200000, to = 1704067200000\<rparr>,
      \<lparr>from = 1704067200000, to = 1735689600000\<rparr>] [Inr 9007199254740992, Inr 1] =
     map Inr [9007199254740992, 1] \<and>
   sum_list [9007199254740992, 1::int] = 9007199254740993 \<and>
   fst (fetchContributions 1705320000000 (\<lambda>t. 0) replay ''octocat'' (Some 1680000000000)
          [Inr 9007199254740992, Inr 1]) =
     Inr \<lparr>contributions = Finite 9007199254740992, fetchContributionsAPICallCount = 2\<rparr>"
  by code_simp

text \<open>
  Claim C8.  The failure of a remote call is the result of the aggregator or of the
  publisher that made the call, as the call raised it, and the remote side is left in the
  state in which the failed call has left it: no further call is made.  This holds for the
  failure of a yearly query, of a commit search, of a commit detail fetch (the calls before
  it having succeeded), of the read of the current document, and of the write.  A write
  rejected because the version marker is stale is the last case.
\<close>

theorem remote_failures_propagate:
  "(calculateDateRanges now ''year'' (getFullYear tza since) (Some 0) = Inr (pre @ r # post) \<and>
    fetchContributions_loop graphql username pre
      \<lparr>contributions = Finite 0, fetchContributionsAPICallCount = 0\<rparr> g0 = (Inr sofar, g1) \<and>
    graphql (username, from r, to r) g1 = (Inl e, g2)
    \<longrightarrow> fetchContributions now tza graphql username since g0 = (Inl e, g2)) \<and>
   (calculateDateRanges now ''month'' (getFullYear tza since) (getMonth tza since) =
      Inr (pre @ r # post) \<and>
    fetchLinesOfCode_loop octokit username pre
      \<lparr>additions = Finite 0, deletions = Finite 0, fetchLinesOfCodeAPICallCount = 0\<rparr> s0 = (Inr acc, s1) \<and>
    search_commits octokit (username, from r, to r) s1 = (Inl e, s2)
    \<longrightarrow> fetchLinesOfCode now tza octokit username since s0 = (Inl e, s2)) \<and>
   (calculateDateRanges now ''month'' (getFullYear tza since) (getMonth tza since) =
      Inr (pre @ r # post) \<and>
    fetchLinesOfCode_loop octokit username pre
      \<lparr>additions = Finite 0, deletions = Finite 0, fetchLinesOfCodeAPICallCount = 0\<rparr> s0 = (Inr acc, s1) \<and>
    search_commits octokit (username, from r, to r) s1 = (Inr pages, s2) \<and>
    concat pages = cs @ c # cs' \<and>
    fetchLinesOfCode_commits octokit cs
      (acc\<lparr>fetchLinesOfCodeAPICallCount := fetchLinesOfCodeAPICallCount acc + 1\<rparr>) s2 =
      (Inr acc', s3) \<and>
    request octokit c s3 = (Inl e, s4)
    \<longrightarrow> fetchLinesOfCode now tza octokit username since s0 = (Inl e, s4)) \<and>
   (getReadme octokit (username, username) s0 = (Inl e, s1)
    \<longrightarrow> commitPopulatedTemplate octokit username populatedTemplate s0 = (Inl e, s1)) \<and>
   (getReadme octokit (username, username) s0 = (Inr readmeSha, s1) \<and>
    createOrUpdateFileContents octokit
      \<lparr>owner = username, repo = username, path = ''readme.md'',
       message = ''chore: update generated content'',
       content = base64 (utf8 populatedTemplate), sha = readmeSha\<rparr> s1 = (Inl e, s2)
    \<longrightarrow> commitPopulatedTemplate octokit username populatedTemplate s0 = (Inl e, s2))"
proof (intro conjI impI)
  assume "calculateDateRanges now ''year'' (getFullYear tza since) (Some 0) = Inr (pre @ r # post) \<and>
    fetchContributions_loop graphql username pre
      \<lparr>contributions = Finite 0, fetchContributionsAPICallCount = 0\<rparr> g0 = (Inr sofar, g1) \<and>
    graphql (username, from r, to r) g1 = (Inl e, g2)"
  thus "fetchContributions now tza graphql username since g0 = (Inl e, g2)"
    unfolding fetchContributions_def Let_def
    by (simp add: fetchContributions_loop_append)
next
  assume "calculateDateRanges now ''month'' (getFullYear tza since) (getMonth tza since) =
      Inr (pre @ r # post) \<and>
    fetchLinesOfCode_loop octokit username pre
      \<lparr>additions = Finite 0, deletions = Finite 0, fetchLinesOfCodeAPICallCount = 0\<rparr> s0 = (Inr acc, s1) \<and>
    search_commits octokit (username, from r, to r) s1 = (Inl e, s2)"
  thus "fetchLinesOfCode now tza octokit username since s0 = (Inl e, s2)"
    unfolding fetchLinesOfCode_def Let_def
    by (simp add: fetchLinesOfCode_loop_append paginate_def)
next
  assume "calculateDateRanges now ''month'' (getFullYear tza since) (getMonth tza since) =
      Inr (pre @ r # post) \<and>
    fetchLinesOfCode_loop octokit username pre
      \<lparr>additions = Finite 0, deletions = Finite 0, fetchLinesOfCodeAPICallCount = 0\<rparr> s0 = (Inr acc, s1) \<and>
    search_commits octokit (username, from r, to r) s1 = (Inr pages, s2) \<and>
    concat pages = cs @ c # cs' \<and>
    fetchLinesOfCode_commits octokit cs
      (acc\<lparr>fetchLinesOfCodeAPICallCount := fetchLinesOfCodeAPICallCount acc + 1\<rparr>) s2 =
      (Inr acc', s3) \<and>
    request octokit c s3 = (Inl e, s4)"
  thus "fetchLinesOfCode now tza octokit username since s0 = (Inl e, s4)"
    unfolding fetchLinesOfCode_def Let_def
    by (simp add: fetchLinesOfCode_loop_append fetchLinesOfCode_commits_append paginate_def)
next
  assume "getReadme octokit (username, username) s0 = (Inl e, s1)"
  thus "commitPopulatedTemplate octokit username populatedTemplate s0 = (Inl e, s1)"
    unfolding commitPopulatedTemplate_def by simp
next
  assume "getReadme octokit (username, username) s0 = (Inr readmeSha, s1) \<and>
    createOrUpdateFileContents octokit
      \<lparr>owner = username, repo = username, path = ''readme.md'',
       message = ''chore: update generated content'',
       content = base64 (utf8 populatedTemplate), sha = readmeSha\<rparr> s1 = (Inl e, s2)"
  thus "commitPopulatedTemplate octokit username populatedTemplate s0 = (Inl e, s2)"
    unfolding commitPopulatedTemplate_def by simp
qed

text \<open>
  The theorem on mocked clients: a yearly query without answer (the answer prepared for the
  year after it is still to give), a client without credentials, a rate limit on a commit
  detail, and a write with a stale version marker, which the publisher returns as the
  conflict (status 409) that the remote side raised.  The mocked clients would answer a
  repeated call: the request after the rate limit succeeds, and a second read gives the
  marker with which the write is accepted.
\<close>

theorem remote_failures_propagate_witness:
  "fetchContributions 1705320000000 (\<lambda>t. 0) replay ''octocat'' (Some 1650000000000)
     [Inr 3, Inl NetworkError, Inr 7] = (Inl NetworkError, [Inr 7]) \<and>
   fetchLinesOfCode 1705320000000 (\<lambda>t. 0) mock_unauthorized ''octocat'' (Some 1702166400000) 0 =
     (Inl (RequestError 401), 1) \<and>
   fetchLinesOfCode 1705320000000 (\<lambda>t. 0) mock_rate_limited ''octocat'' (Some 1702166400000) 0 =
     (Inl (RequestError 403), 3) \<and>
   request mock_rate_limited ''b'' 3 = (Inr (1, 1), 4) \<and>
   commitPopulatedTemplate mock_unauthorized ''octocat'' ''name: ... Ada'' 0 =
     (Inl (RequestError 401), 1) \<and>
   commitPopulatedTemplate mock_stale_readme ''octocat'' ''name: ... Ada'' 0 =
     (Inl (RequestError 409), 2) \<and>
   getReadme mock_stale_readme (''octocat'', ''octocat'') 2 = (Inr ''sha-new'', 3) \<and>
   createOrUpdateFileContents mock_stale_readme
     \<lparr>owner = ''octocat'', repo = ''octocat'', path = ''readme.md'',
      message = ''chore: update generated content'',
      content = base64 (utf8 ''name: ... Ada''), sha = ''sha-new''\<rparr> 3 = (Inr (), 4)"
proof -
  have years:
    "calculateDateRanges 1705320000000 ''year'' (getFullYear (\<lambda>t. 0) (Some 1650000000000)) (Some 0) =
     Inr ([\<lparr>from = 1640995200000, to = 1672531200000\<rparr>] @
          \<lparr>from = 1672531200000, to = 1704067200000\<rparr> #
          [\<lparr>from = 1704067200000, to = 1735689600000\<rparr>])"
    by code_simp
  have months: "calculateDateRanges 1705320000000 ''month''
      (getFullYear (\<lambda>t. 0) (Some 1702166400000)) (getMonth (\<lambda>t. 0) (Some 1702166400000)) =
     Inr ([] @ \<lparr>from = 1701388800000, to = 1704067200000\<rparr> #
          [\<lparr>from = 1704067200000, to = 1706745600000\<rparr>])"
    by code_simp
  have three: "to_double 3 = Finite 3" "js_add (Finite 0) (Finite 3) = Finite 3"
    "to_double 1 = Finite 1" "js_add (Finite 0) (Finite 1) = Finite 1"
    by code_simp+
  have 1: "fetchContributions 1705320000000 (\<lambda>t. 0) replay ''octocat'' (Some 1650000000000)
     [Inr 3, Inl NetworkError, Inr 7] = (Inl NetworkError, [Inr 7])"
    using years three
      remote_failures_propagate[where now = 1705320000000 and tza = "\<lambda>t. 0"
        and since = "Some 1650000000000"
        and pre = "[\<lparr>from = 1640995200000, to = 1672531200000\<rparr>]"
        and r = "\<lparr>from = 1672531200000, to = 1704067200000\<rparr>"
        and post = "[\<lparr>from = 1704067200000, to = 1735689600000\<rparr>]"
        and graphql = replay and username = "''octocat''" and e = NetworkError
        and ?g0.0 = "[Inr 3, Inl NetworkError, Inr 7]"
        and sofar = "\<lparr>contributions = Finite 3, fetchContributionsAPICallCount = 1\<rparr>"
        and ?g1.0 = "[Inl NetworkError, Inr 7]" and ?g2.0 = "[Inr 7]",
        THEN conjunct1]
    by (simp add: replay_def)
  have 2: "fetchLinesOfCode 1705320000000 (\<lambda>t. 0) mock_unauthorized ''octocat''
      (Some 1702166400000) 0 = (Inl (RequestError 401), 1)"
    using months
      remote_failures_propagate[where now = 1705320000000 and tza = "\<lambda>t. 0"
        and since = "Some 1702166400000" and pre = "[]"
        and r = "\<lparr>from = 1701388800000, to = 1704067200000\<rparr>"
        and post = "[\<lparr>from = 1704067200000, to = 1706745600000\<rparr>]"
        and octokit = mock_unauthorized and username = "''octocat''"
        and e = "RequestError 401" and ?s0.0 = 0 and ?s1.0 = 0 and ?s2.0 = 1
        and acc = "\<lparr>additions = Finite 0, deletions = Finite 0, fetchLinesOfCodeAPICallCount = 0\<rparr>",
        THEN conjunct2, THEN conjunct1]
    by (simp add: mock_unauthorized_def)
  have 3: "fetchLinesOfCode 1705320000000 (\<lambda>t. 0) mock_rate_limited ''octocat''
      (Some 1702166400000) 0 = (Inl (RequestError 403), 3)"
    using months three
      remote_failures_propagate[where now = 1705320000000 and tza = "\<lambda>t. 0"
        and since = "Some 1702166400000" and pre = "[]"
        and r = "\<lparr>from = 1701388800000, to = 1704067200000\<rparr>"
        and post = "[\<lparr>from = 1704067200000, to = 1706745600000\<rparr>]"
        and octokit = mock_rate_limited and username = "''octocat''"
        and pages = "[[''a'', ''b'', ''c'']]" and cs = "[''a'']" and c = "''b''"
        and cs' = "[''c'']" and e = "RequestError 403"
        and ?s0.0 = 0 and ?s1.0 = 0 and ?s2.0 = 1 and ?s3.0 = 2 and ?s4.0 = 3
        and acc = "\<lparr>additions = Finite 0, deletions = Finite 0, fetchLinesOfCodeAPICallCount = 0\<rparr>"
        and acc' = "\<lparr>additions = Finite 1, deletions = Finite 1, fetchLinesOfCodeAPICallCount = 2\<rparr>",
        THEN conjunct2, THEN conjunct2, THEN conjunct1]
    by (simp add: mock_rate_limited_def)
  have 4: "commitPopulatedTemplate mock_unauthorized ''octocat'' ''name: ... Ada'' 0 =
      (Inl (RequestError 401), 1)"
    using remote_failures_propagate[where octokit = mock_unauthorized
        and username = "''octocat''" and populatedTemplate = "''name: ... Ada''"
        and e = "RequestError 401" and ?s0.0 = 0 and ?s1.0 = 1,
        THEN conjunct2, THEN conjunct2, THEN conjunct2, THEN conjunct1]
    by (simp add: mock_unauthorized_def)
  have 5: "commitPopulatedTemplate mock_stale_readme ''octocat'' ''name: ... Ada'' 0 =
      (Inl (RequestError 409), 2)"
    using remote_failures_propagate[where octokit = mock_stale_readme
        and username = "''octocat''" and populatedTemplate = "''name: ... Ada''"
        and readmeSha = "''sha-old''" and e = "RequestError 409"
        and ?s0.0 = 0 and ?s1.0 = 1 and ?s2.0 = 2,
        THEN conjunct2, THEN conjunct2, THEN conjunct2, THEN conjunct2]
    by (simp add: mock_stale_readme_def)
  show ?thesis using 1 2 3 4 5 by (simp add: mock_rate_limited_def mock_stale_readme_def)
qed

section \<open>Claims about the renderer\<close>

text \<open>
  In the claims below a placeholder is a match of the pattern in the template, that is a
  \<open>Placeholder key\<close> in its scan; \<open>pre\<close> and \<open>post\<close> are the scan before and after it, and
  \<open>out_pre\<close> and \<open>out_post\<close> what the renderer writes for them.
\<close>

text \<open>
  Claim C4, as amended.  The replacement of a placeholder uses a filler run of length
  exactly \<open>max(0, 64 - 5 - len(key) - len(value))\<close>, where \<open>key\<close> is the placeholder key as
  it is written between the braces, white space included, and \<open>value\<close> is the substituted
  value: the string read from \<open>stats\<close> under the trimmed key, or \<open>N/A\<close> when the read gives
  \<open>undefined\<close> or \<open>null\<close>.  Whenever \<open>len(key) + len(value) \<ge> 59\<close> the run is empty, and so it
  is whenever the trimmed key and the value together reach 59.  When the value read is not
  a string, its own \<open>length\<close> stands in the formula in place of the length of the text
  written, and the run is empty when the value has no \<open>length\<close>.
\<close>

theorem filler_run_length_from_raw_key:
  assumes match: "scan template = pre @ Placeholder key # post"
  shows "\<exists>out_pre out_post n value.
     substitute (replacer stats) pre = Inr out_pre \<and>
     substitute (replacer stats) post = Inr out_post \<and>
     generatePopulatedTemplate template stats =
       Inr (out_pre @ js (replicate n CHR ''.'') @ js '' '' @ value @ out_post) \<and>
     (case stats (trim key) of
        Undefined \<Rightarrow>
          value = js ''N/A'' \<and>
          int n = max 0 (64 - 5 - int (length key) - int (length value))
      | Null \<Rightarrow>
          value = js ''N/A'' \<and>
          int n = max 0 (64 - 5 - int (length key) - int (length value))
      | String s \<Rightarrow>
          value = s \<and>
          int n = max 0 (64 - 5 - int (length key) - int (length value))
      | Other None text \<Rightarrow> value = text \<and> n = 0
      | Other (Some l) text \<Rightarrow>
          value = text \<and> int n = max 0 (64 - 5 - int (length key) - int l)) \<and>
     ((\<forall>len text. stats (trim key) \<noteq> Other len text) \<longrightarrow>
        (59 \<le> length key + length value \<longrightarrow> n = 0) \<and>
        (59 \<le> length (trim key) + length value \<longrightarrow> n = 0))"
proof -
  from render_match[OF match, of stats] obtain a b where
    a: "substitute (replacer stats) pre = Inr a" and
    b: "substitute (replacer stats) post = Inr b" and
    g: "generatePopulatedTemplate template stats =
       Inr (a @
            js (replicate
              (case stats (trim key) of
                 Other None text \<Rightarrow> 0
               | Other (Some l) text \<Rightarrow> nat (max 0 (64 - 5 - int (length key) - int l))
               | String s \<Rightarrow> nat (max 0 (64 - 5 - int (length key) - int (length s)))
               | _ \<Rightarrow> nat (max 0 (64 - 5 - int (length key) - 3))) CHR ''.'') @
            js '' '' @
            ToString (nullish_coalescing (stats (trim key)) (String (js ''N/A''))) @
            b)"
    by blast
  have t: "length (trim key) \<le> length key" by (rule length_trim)
  show ?thesis
    apply (rule exI[of _ a], rule exI[of _ b])
    apply (rule exI[of _ "case stats (trim key) of
                 Other None text \<Rightarrow> 0
               | Other (Some l) text \<Rightarrow> nat (max 0 (64 - 5 - int (length key) - int l))
               | String s \<Rightarrow> nat (max 0 (64 - 5 - int (length key) - int (length s)))
               | _ \<Rightarrow> nat (max 0 (64 - 5 - int (length key) - 3))"])
    apply (rule exI[of _ "ToString (nullish_coalescing (stats (trim key)) (String (js ''N/A'')))"])
    using a b g t
    by (auto simp: ToString_def nullish_coalescing_def split: jsvalue.splits option.splits)
qed

text \<open>
  A key of three code units with a value of one gets 55 dots; a key of 56 with the value
  \<open>N/A\<close> gets none; the boolean \<open>true\<close>, which has no \<open>length\<close>, gets none; and the array
  \<open>[1, 2]\<close>, of length 2 and written \<open>1,2\<close>, gets 53 after a key of four.
\<close>

theorem filler_run_length_from_raw_key_witness:
  "generatePopulatedTemplate (js ''score: {{ x }}|'')
      (object_literal [js ''x'' \<mapsto> String (js ''5'')]) =
     Inr (js ''score: '' @ js (replicate 55 CHR ''.'') @ js '' '' @ js ''5'' @ js ''|'') \<and>
   generatePopulatedTemplate
      (js ''{{a key that is fifty-six characters long to fill the line}}'')
      (object_literal Map.empty) = Inr (js '' N/A'') \<and>
   generatePopulatedTemplate (js ''{{flag}}'')
      (object_literal [js ''flag'' \<mapsto> Other None (js ''true'')]) = Inr (js '' true'') \<and>
   generatePopulatedTemplate (js ''{{list}}'')
      (object_literal [js ''list'' \<mapsto> Other (Some 2) (js ''1,2'')]) =
     Inr (js (replicate 53 CHR ''.'') @ js '' 1,2'')"
proof -
  have s1: "scan (js ''score: {{ x }}|'') =
      map Text (js ''score: '') @ Placeholder (js '' x '') # map Text (js ''|'')"
    by code_simp
  have s2: "scan (js ''{{a key that is fifty-six characters long to fill the line}}'') =
      [] @ Placeholder (js ''a key that is fifty-six characters long to fill the line'') # []"
    by code_simp
  have s3: "scan (js ''{{flag}}'') = [] @ Placeholder (js ''flag'') # []"
    by code_simp
  have s4: "scan (js ''{{list}}'') = [] @ Placeholder (js ''list'') # []"
    by code_simp
  have t1: "trim (js '' x '') = js ''x''"
    and t2: "trim (js ''a key that is fifty-six characters long to fill the line'') =
      js ''a key that is fifty-six characters long to fill the line''"
    and t3: "trim (js ''flag'') = js ''flag''"
    and t4: "trim (js ''list'') = js ''list''"
    by code_simp+
  have a: "generatePopulatedTemplate (js ''score: {{ x }}|'')
      (object_literal [js ''x'' \<mapsto> String (js ''5'')]) =
     Inr (js ''score: '' @ js (replicate 55 CHR ''.'') @ js '' '' @ js ''5'' @ js ''|'')"
    using filler_run_length_from_raw_key[OF s1, of "object_literal [js ''x'' \<mapsto> String (js ''5'')]"]
    unfolding t1
    by (auto simp: object_literal_def js_def nat_eq_iff)
  have b: "generatePopulatedTemplate
      (js ''{{a key that is fifty-six characters long to fill the line}}'')
      (object_literal Map.empty) = Inr (js '' N/A'')"
    using filler_run_length_from_raw_key[OF s2, of "object_literal Map.empty"]
    unfolding t2
    by (auto simp: object_literal_def Object_prototype_def js_def)
  have c: "generatePopulatedTemplate (js ''{{flag}}'')
      (object_literal [js ''flag'' \<mapsto> Other None (js ''true'')]) = Inr (js '' true'')"
    using filler_run_length_from_raw_key[OF s3,
        of "object_literal [js ''flag'' \<mapsto> Other None (js ''true'')]"]
    unfolding t3
    by (auto simp: object_literal_def js_def)
  have d: "generatePopulatedTemplate (js ''{{list}}'')
      (object_literal [js ''list'' \<mapsto> Other (Some 2) (js ''1,2'')]) =
     Inr (js (replicate 53 CHR ''.'') @ js '' 1,2'')"
    using filler_run_length_from_raw_key[OF s4,
        of "object_literal [js ''list'' \<mapsto> Other (Some 2) (js ''1,2'')]"]
    unfolding t4
    by (auto simp: object_literal_def js_def nat_eq_iff)
  show ?thesis using a b c d by simp
qed

text \<open>
  Claim C4 as stated measures the trimmed key.  For \<open>{{ x }}\<close> and the value \<open>5\<close> that is
  57 filler characters; the renderer writes 55.
\<close>

theorem filler_run_ignores_trimming:
  "generatePopulatedTemplate (js ''score: {{ x }}'')
      (object_literal [js ''x'' \<mapsto> String (js ''5'')]) =
     Inr (js ''score: '' @ js (replicate 55 CHR ''.'') @ js '' 5'') \<and>
   trim (js '' x '') = js ''x'' \<and>
   max 0 (64 - 5 - int (length (trim (js '' x ''))) - int (length (js ''5''))) = 57"
  by code_simp

text \<open>
  Claim C7, as amended.  A placeholder whose trimmed key reads as \<open>undefined\<close> or \<open>null\<close> in
  \<open>stats\<close> is replaced by the filler run, a space and the literal \<open>N/A\<close>.  For a \<open>stats\<close>
  written as an object literal these are the keys that hold \<open>undefined\<close> or \<open>null\<close>, and the
  keys that are absent from the literal and are not a name that every object inherits
  from \<open>Object.prototype\<close>.
\<close>

theorem absent_key_renders_NA:
  assumes match: "scan template = pre @ Placeholder key # post"
    and absent: "stats (trim key) = Undefined \<or> stats (trim key) = Null \<or>
       (\<exists>props. stats = object_literal props \<and> trim key \<notin> dom props \<and>
          Object_prototype (trim key) = Undefined)"
  shows "\<exists>out_pre out_post.
     substitute (replacer stats) pre = Inr out_pre \<and>
     substitute (replacer stats) post = Inr out_post \<and>
     generatePopulatedTemplate template stats =
       Inr (out_pre @
            js (replicate (nat (max 0 (64 - 5 - int (length key) - 3))) CHR ''.'') @
            js '' N/A'' @ out_post)"
proof -
  have "stats (trim key) = Undefined \<or> stats (trim key) = Null"
    using absent by (auto simp: object_literal_def dom_def)
  moreover have "js '' '' @ js ''N/A'' = js '' N/A''" by (simp add: js_def)
  ultimately show ?thesis
    using render_match[OF match, of stats]
    by (auto simp: nullish_coalescing_def ToString_def)
qed

text \<open>
  The key \<open>email\<close>, written with spaces, in a literal that only holds \<open>name\<close>; and the key
  \<open>name\<close> in a literal that holds \<open>null\<close> for it.
\<close>

theorem absent_key_renders_NA_witness:
  "generatePopulatedTemplate (js ''email: {{ email }}!'')
      (object_literal [js ''name'' \<mapsto> String (js ''Ada'')]) =
     Inr (js ''email: '' @ js (replicate 49 CHR ''.'') @ js '' N/A'' @ js ''!'') \<and>
   generatePopulatedTemplate (js ''{{name}}'') (object_literal [js ''name'' \<mapsto> Null]) =
     Inr (js (replicate 52 CHR ''.'') @ js '' N/A'')"
proof -
  define ada where "ada = object_literal [js ''name'' \<mapsto> String (js ''Ada'')]"
  define nobody where "nobody = object_literal [js ''name'' \<mapsto> Null]"
  have s1: "scan (js ''email: {{ email }}!'') =
      map Text (js ''email: '') @ Placeholder (js '' email '') # map Text (js ''!'')"
    by code_simp
  have s2: "scan (js ''{{name}}'') = map Text [] @ Placeholder (js ''name'') # map Text []"
    by code_simp
  have t1: "trim (js '' email '') = js ''email''" and t2: "trim (js ''name'') = js ''name''"
    by code_simp+
  have p: "Object_prototype (js ''email'') = Undefined" by code_simp
  have n: "js ''email'' \<noteq> js ''name''" by code_simp
  have a1: "ada (trim (js '' email '')) = Undefined \<or> ada (trim (js '' email '')) = Null \<or>
      (\<exists>props. ada = object_literal props \<and>
         trim (js '' email '') \<notin> dom props \<and> Object_prototype (trim (js '' email '')) = Undefined)"
    unfolding t1 ada_def using p n
    by (intro disjI2 exI[of _ "[js ''name'' \<mapsto> String (js ''Ada'')]"]) simp
  have a2: "nobody (trim (js ''name'')) = Undefined \<or> nobody (trim (js ''name'')) = Null \<or>
      (\<exists>props. nobody = object_literal props \<and>
         trim (js ''name'') \<notin> dom props \<and> Object_prototype (trim (js ''name'')) = Undefined)"
    unfolding t2 nobody_def by (simp add: object_literal_def)
  have a: "generatePopulatedTemplate (js ''email: {{ email }}!'') ada =
     Inr (js ''email: '' @ js (replicate 49 CHR ''.'') @ js '' N/A'' @ js ''!'')"
    using absent_key_renders_NA[OF s1 a1] by (auto simp: substitute_Text)
  have b: "generatePopulatedTemplate (js ''{{name}}'') nobody =
     Inr (js (replicate 52 CHR ''.'') @ js '' N/A'')"
    using absent_key_renders_NA[OF s2 a2] by (auto simp: substitute_Text)
  show ?thesis using a b unfolding ada_def nobody_def by simp
qed

text \<open>
  Claim C7 as stated has \<open>N/A\<close> for every key that is absent from the stats mapping.  The
  key \<open>constructor\<close> is absent from a literal that only holds \<open>name\<close>, and the read gives the
  function that the object inherits: the renderer writes 47 dots and the text of the
  function.
\<close>

theorem absent_key_constructor_renders_function:
  "trim (js ''constructor'') = js ''constructor'' \<and>
   [js ''name'' \<mapsto> String (js ''Ada'')] (js ''constructor'') = None \<and>
   generatePopulatedTemplate (js ''{{constructor}}'')
      (object_literal [js ''name'' \<mapsto> String (js ''Ada'')]) =
     Inr (js (replicate 47 CHR ''.'') @ js '' function Object() { [native code] }'')"
  by code_simp




end
